theory Spec2Isabelle
  imports Main "HOL-Library.AList"
begin

section \<open>JavaScript values, objects and the object store\<close>

text \<open>
  The chunk \<^verbatim>\<open>assets/js/00634dd8.062cee42.js\<close> carries webpack module 3905, the MDX
  runtime: the helpers \<^verbatim>\<open>o\<close> (defineProperty), \<^verbatim>\<open>a\<close> (ownKeys), \<^verbatim>\<open>i\<close> (objectSpread),
  \<^verbatim>\<open>l\<close> (objectWithoutProperties), \<^verbatim>\<open>p\<close> (useMDXComponents), the table \<^verbatim>\<open>d\<close>
  (DEFAULTS), \<^verbatim>\<open>u\<close> (MDXCreateElement) and \<^verbatim>\<open>f\<close>, exported as \<^verbatim>\<open>kt\<close>.
  Each is embedded below under its minified letter followed by its role.

  Objects are mutable and shared in JavaScript, so they live in a store and values refer
  to them by address. An object of the model is the list of its own enumerable
  string-keyed data properties, in insertion order; it inherits from \<^verbatim>\<open>Object.prototype\<close>.
  Outside the model are: symbol-keyed, non-enumerable and accessor properties of
  caller-supplied objects (so a string contributes its indexed characters and not its
  \<^verbatim>\<open>length\<close>), the order in which JavaScript lists integer-like keys, numbers that are
  not integers, and BigInts. Functions, arrays and elements are opaque values without
  own properties. The internal prototype slot of an object is not part of the store:
  every object inherits from \<^verbatim>\<open>Object.prototype\<close>, and an assignment to \<^verbatim>\<open>__proto__\<close>,
  which would replace the prototype, is kept out of every statement below by a hypothesis
  or by the fixed input.
\<close>

type_synonym addr = nat

datatype jsval =
    Undefined
  | Null
  | JBool bool
  | JNum int
  | JStr string
  | JSymbol nat                     \<comment> \<open>a Symbol, by identity\<close>
  | JFun nat                        \<comment> \<open>a caller-supplied function, by identity\<close>
  | JHost string                    \<comment> \<open>a function of the host or of this module, by name\<close>
  | JProto                          \<comment> \<open>the object \<^verbatim>\<open>Object.prototype\<close> itself\<close>
  | MDXCreateElement                \<comment> \<open>the forwardRef component \<^verbatim>\<open>u\<close>\<close>
  | JRef addr                       \<comment> \<open>a plain object in the store\<close>
  | JArr "jsval list"               \<comment> \<open>an array built by the host\<close>
  | JElem jsval jsval "jsval list"  \<comment> \<open>what \<^verbatim>\<open>r.createElement(type, config, ...children)\<close> was given\<close>

type_synonym obj = "(string \<times> jsval) list"

type_synonym heap = "obj list"

datatype error =
    Thrown jsval    \<comment> \<open>an exception raised by caller-supplied code\<close>
  | TypeError       \<comment> \<open>the TypeError of a failed conversion to a string\<close>

definition load :: "heap \<Rightarrow> addr \<Rightarrow> obj" where
  "load h a = (if a < length h then h ! a else [])"

definition store :: "addr \<Rightarrow> obj \<Rightarrow> heap \<Rightarrow> heap" where
  "store a ob h = h[a := ob]"

definition alloc :: "obj \<Rightarrow> heap \<Rightarrow> addr \<times> heap" where
  "alloc ob h = (length h, h @ [ob])"

fun truthy :: "jsval \<Rightarrow> bool" where
  "truthy Undefined = False"
| "truthy Null = False"
| "truthy (JBool b) = b"
| "truthy (JNum n) = (n \<noteq> 0)"
| "truthy (JStr s) = (s \<noteq> [])"
| "truthy _ = True"

definition or_else :: "jsval \<Rightarrow> jsval \<Rightarrow> jsval" where
  \<comment> \<open>\<^verbatim>\<open>x || y\<close>\<close>
  "or_else x y = (if truthy x then x else y)"

definition and_then :: "jsval \<Rightarrow> jsval \<Rightarrow> jsval" where
  \<comment> \<open>\<^verbatim>\<open>x && y\<close>, for an operand \<open>y\<close> without effects\<close>
  "and_then x y = (if truthy x then y else x)"

fun typeof :: "jsval \<Rightarrow> string" where
  "typeof Undefined = ''undefined''"
| "typeof Null = ''object''"
| "typeof (JBool b) = ''boolean''"
| "typeof (JNum n) = ''number''"
| "typeof (JStr s) = ''string''"
| "typeof (JSymbol k) = ''symbol''"
| "typeof (JFun k) = ''function''"
| "typeof (JHost k) = ''function''"
| "typeof _ = ''object''"

fun is_object :: "jsval \<Rightarrow> bool" where
  \<comment> \<open>the value is an Object, not a primitive\<close>
  "is_object Undefined = False"
| "is_object Null = False"
| "is_object (JBool b) = False"
| "is_object (JNum n) = False"
| "is_object (JStr s) = False"
| "is_object (JSymbol k) = False"
| "is_object _ = True"

definition nullish :: "jsval \<Rightarrow> bool" where
  \<comment> \<open>\<^verbatim>\<open>null == v\<close>\<close>
  "nullish v = (v = Null \<or> v = Undefined)"

subsection \<open>Strings of numbers\<close>

definition digit_char :: "nat \<Rightarrow> char" where
  "digit_char n = char_of (48 + n)"

fun string_of_nat :: "nat \<Rightarrow> string" where
  "string_of_nat n =
     (if n < 10 then [digit_char n] else string_of_nat (n div 10) @ [digit_char (n mod 10)])"

definition string_of_int :: "int \<Rightarrow> string" where
  "string_of_int z = (if z < 0 then CHR ''-'' # string_of_nat (nat (- z)) else string_of_nat (nat z))"

subsection \<open>Property reads and writes\<close>

definition Object_prototype :: obj where
  "Object_prototype =
     [(''constructor'', JHost ''Object''),
      (''__defineGetter__'', JHost ''__defineGetter__''),
      (''__defineSetter__'', JHost ''__defineSetter__''),
      (''hasOwnProperty'', JHost ''hasOwnProperty''),
      (''__lookupGetter__'', JHost ''__lookupGetter__''),
      (''__lookupSetter__'', JHost ''__lookupSetter__''),
      (''isPrototypeOf'', JHost ''isPrototypeOf''),
      (''propertyIsEnumerable'', JHost ''propertyIsEnumerable''),
      (''toString'', JHost ''toString''),
      (''valueOf'', JHost ''valueOf''),
      (''__proto__'', JProto),
      (''toLocaleString'', JHost ''toLocaleString'')]"

definition lookup_obj :: "obj \<Rightarrow> string \<Rightarrow> jsval" where
  \<comment> \<open>\<^verbatim>\<open>e[k]\<close> on a plain object: its own property, else the inherited one, else undefined\<close>
  "lookup_obj ob k =
     (case map_of ob k of
        Some v \<Rightarrow> v
      | None \<Rightarrow> (case map_of Object_prototype k of Some v \<Rightarrow> v | None \<Rightarrow> Undefined))"

definition get_prop :: "heap \<Rightarrow> addr \<Rightarrow> string \<Rightarrow> jsval" where
  "get_prop h a k = lookup_obj (load h a) k"

definition string_entries :: "string \<Rightarrow> obj" where
  \<comment> \<open>the indexed characters of a string, the own enumerable properties of \<^verbatim>\<open>Object(s)\<close>\<close>
  "string_entries s = map (\<lambda>(n, c). (string_of_nat n, JStr [c])) (enumerate 0 s)"

definition js_get :: "heap \<Rightarrow> jsval \<Rightarrow> string \<Rightarrow> jsval" where
  \<comment> \<open>\<^verbatim>\<open>v[k]\<close> for a value that is not null or undefined; of what primitives and functions
      inherit, only the absence of the keys read in this module is modelled\<close>
  "js_get h v k =
     (case v of
        JRef a \<Rightarrow> get_prop h a k
      | JStr s \<Rightarrow> (case map_of (string_entries s) k of Some c \<Rightarrow> c | None \<Rightarrow> Undefined)
      | _ \<Rightarrow> Undefined)"

definition object_keys :: "heap \<Rightarrow> jsval \<Rightarrow> string list" where
  \<comment> \<open>\<^verbatim>\<open>Object.keys(Object(v))\<close>\<close>
  "object_keys h v =
     (case v of
        JRef a \<Rightarrow> map fst (load h a)
      | JStr s \<Rightarrow> map fst (string_entries s)
      | _ \<Rightarrow> [])"

definition own_symbols :: "heap \<Rightarrow> jsval \<Rightarrow> string list" where
  \<comment> \<open>\<^verbatim>\<open>Object.getOwnPropertySymbols(e)\<close>: the objects of the model have none\<close>
  "own_symbols h v = []"

definition js_in :: "heap \<Rightarrow> string \<Rightarrow> addr \<Rightarrow> bool" where
  \<comment> \<open>\<^verbatim>\<open>n in e\<close>\<close>
  "js_in h n e = (n \<in> fst ` set (load h e) \<or> n \<in> fst ` set Object_prototype)"

definition define_property :: "addr \<Rightarrow> string \<Rightarrow> jsval \<Rightarrow> heap \<Rightarrow> heap" where
  \<comment> \<open>\<^verbatim>\<open>Object.defineProperty(e, n, {value: t, enumerable: true, ...})\<close>\<close>
  "define_property e n t h = store e (AList.update n t (load h e)) h"

definition assign :: "addr \<Rightarrow> string \<Rightarrow> jsval \<Rightarrow> heap \<Rightarrow> heap" where
  \<comment> \<open>\<^verbatim>\<open>e[n] = t\<close> on a plain object, as far as its own properties go: an assignment to
      \<^verbatim>\<open>__proto__\<close> that is not an own property runs the inherited setter and creates no
      property (the setter's replacement of the prototype is not recorded)\<close>
  "assign e n t h =
     (if n = ''__proto__'' \<and> n \<notin> fst ` set (load h e) then h
      else store e (AList.update n t (load h e)) h)"

subsection \<open>Conversion to a string\<close>

text \<open>
  What the host contributes: the call of a function-valued \<^verbatim>\<open>components\<close> prop, the call
  of a caller-supplied \<^verbatim>\<open>toString\<close> or \<^verbatim>\<open>valueOf\<close> method, the string of a value that the
  model keeps opaque, the string of a number beyond the safe integers (which JavaScript
  prints with the shortest digits that identify it, in exponent form from \<^verbatim>\<open>1e21\<close> on), and
  whether \<^verbatim>\<open>Object.getOwnPropertyDescriptors\<close> exists. A components function may throw and
  may change the store; when it returns, it returns a components object, as its type in
  MDX says (a function returning anything else is outside the model). A conversion method
  may throw and may read the store; one that changes the store is outside the model. The
  context that \<^verbatim>\<open>r.useContext(s)\<close> yields is an object: the default \<^verbatim>\<open>{}\<close> of
  \<^verbatim>\<open>r.createContext({})\<close> or what a provider computed with \<^verbatim>\<open>p\<close>.
\<close>

record host =
  apply_components :: "jsval \<Rightarrow> addr \<Rightarrow> heap \<Rightarrow> error + addr \<times> heap"
  call_function :: "heap \<Rightarrow> jsval \<Rightarrow> jsval \<Rightarrow> error + jsval"
  opaque_to_string :: "heap \<Rightarrow> jsval \<Rightarrow> error + string"
  number_to_string :: "int \<Rightarrow> string"
  has_getOwnPropertyDescriptors :: bool

definition number_string :: "host \<Rightarrow> int \<Rightarrow> string" where
  \<comment> \<open>\<^verbatim>\<open>Number::toString\<close>: a safe integer (up to \<^verbatim>\<open>2^53\<close> in magnitude) prints its digits\<close>
  "number_string env z =
     (if \<bar>z\<bar> \<le> 9007199254740992 then string_of_int z else number_to_string env z)"

fun prim_to_string :: "host \<Rightarrow> jsval \<Rightarrow> error + string" where
  \<comment> \<open>\<^verbatim>\<open>ToString\<close> of a primitive; a Symbol throws (the last equation is for a Symbol: an
      object is first reduced to a primitive)\<close>
  "prim_to_string env Undefined = Inr ''undefined''"
| "prim_to_string env Null = Inr ''null''"
| "prim_to_string env (JBool b) = Inr (if b then ''true'' else ''false'')"
| "prim_to_string env (JNum z) = Inr (number_string env z)"
| "prim_to_string env (JStr s) = Inr s"
| "prim_to_string env _ = Inl TypeError"

definition call_method :: "host \<Rightarrow> heap \<Rightarrow> jsval \<Rightarrow> jsval \<Rightarrow> error + jsval" where
  \<comment> \<open>\<^verbatim>\<open>Call(method, O)\<close> on a plain object \<open>O\<close>: the inherited \<^verbatim>\<open>Object.prototype.toString\<close>
      and \<^verbatim>\<open>Object.prototype.valueOf\<close> are known, any other function is the caller's\<close>
  "call_method env h m this =
     (if m = JHost ''toString'' then Inr (JStr ''[object Object]'')
      else if m = JHost ''valueOf'' then Inr this
      else call_function env h m this)"

definition try_method :: "host \<Rightarrow> heap \<Rightarrow> addr \<Rightarrow> string \<Rightarrow> error + jsval option" where
  \<comment> \<open>one round of \<^verbatim>\<open>OrdinaryToPrimitive\<close>: the method is read from the object or its
      prototype and, when callable, called; a result counts when it is a primitive\<close>
  "try_method env h a name =
     (let m = get_prop h a name in
      if typeof m = ''function'' then
        (case call_method env h m (JRef a) of
           Inl err \<Rightarrow> Inl err
         | Inr r \<Rightarrow> Inr (if is_object r then None else Some r))
      else Inr None)"

definition ordinary_to_primitive :: "host \<Rightarrow> heap \<Rightarrow> addr \<Rightarrow> error + jsval" where
  \<comment> \<open>\<^verbatim>\<open>OrdinaryToPrimitive(O, string)\<close>: \<^verbatim>\<open>toString\<close>, then \<^verbatim>\<open>valueOf\<close>, else a TypeError\<close>
  "ordinary_to_primitive env h a =
     (case try_method env h a ''toString'' of
        Inl err \<Rightarrow> Inl err
      | Inr (Some r) \<Rightarrow> Inr r
      | Inr None \<Rightarrow>
          (case try_method env h a ''valueOf'' of
             Inl err \<Rightarrow> Inl err
           | Inr (Some r) \<Rightarrow> Inr r
           | Inr None \<Rightarrow> Inl TypeError))"

definition to_string :: "host \<Rightarrow> heap \<Rightarrow> jsval \<Rightarrow> error + string" where
  \<comment> \<open>\<^verbatim>\<open>ToString(v)\<close>, the conversion done by \<^verbatim>\<open>"".concat(v)\<close> and, for a value that is not
      a Symbol, by a computed property key\<close>
  "to_string env h v =
     (case v of
        JRef a \<Rightarrow>
          (case ordinary_to_primitive env h a of
             Inl err \<Rightarrow> Inl err
           | Inr p \<Rightarrow> prim_to_string env p)
      | _ \<Rightarrow> if is_object v then opaque_to_string env h v else prim_to_string env v)"

section \<open>Module 3905: the MDX runtime\<close>

definition o_defineProperty :: "addr \<Rightarrow> string \<Rightarrow> jsval \<Rightarrow> heap \<Rightarrow> heap" where
  \<comment> \<open>\<^verbatim>\<open>function o(e,n,t){return n in e?Object.defineProperty(e,n,{value:t,...}):e[n]=t,e}\<close>\<close>
  "o_defineProperty e n t h = (if js_in h n e then define_property e n t h else assign e n t h)"

definition a_ownKeys :: "heap \<Rightarrow> jsval \<Rightarrow> bool \<Rightarrow> string list" where
  \<comment> \<open>\<^verbatim>\<open>function a(e,n)\<close>: \<^verbatim>\<open>Object.keys(e)\<close> followed by the own symbols (the enumerable
      ones when \<open>n\<close>)\<close>
  "a_ownKeys h e n =
     (let t = object_keys h e;
          r = own_symbols h e;
          r' = (if n then filter (\<lambda>k. True) r else r)
      in t @ r')"

fun forEach_o :: "addr \<Rightarrow> jsval \<Rightarrow> string list \<Rightarrow> heap \<Rightarrow> heap" where
  \<comment> \<open>\<^verbatim>\<open>keys.forEach(function(n){o(e,n,t[n])})\<close>\<close>
  "forEach_o e t [] h = h"
| "forEach_o e t (n # ns) h = forEach_o e t ns (o_defineProperty e n (js_get h t n) h)"

fun forEach_define :: "addr \<Rightarrow> jsval \<Rightarrow> string list \<Rightarrow> heap \<Rightarrow> heap" where
  \<comment> \<open>\<^verbatim>\<open>keys.forEach(function(n){Object.defineProperty(e,n,Object.getOwnPropertyDescriptor(t,n))})\<close>\<close>
  "forEach_define e t [] h = h"
| "forEach_define e t (n # ns) h = forEach_define e t ns (define_property e n (js_get h t n) h)"

fun defineProperties :: "addr \<Rightarrow> obj \<Rightarrow> heap \<Rightarrow> heap" where
  \<comment> \<open>\<^verbatim>\<open>Object.defineProperties(e, descriptors)\<close>\<close>
  "defineProperties e [] h = h"
| "defineProperties e ((n, v) # ds) h = defineProperties e ds (define_property e n v h)"

definition getOwnPropertyDescriptors :: "heap \<Rightarrow> jsval \<Rightarrow> obj" where
  "getOwnPropertyDescriptors h t = map (\<lambda>k. (k, js_get h t k)) (object_keys h t)"

fun i_loop :: "host \<Rightarrow> addr \<Rightarrow> nat \<Rightarrow> jsval list \<Rightarrow> heap \<Rightarrow> heap" where
  \<comment> \<open>\<^verbatim>\<open>for(var n=1;n<arguments.length;n++)\<close>; the list holds \<^verbatim>\<open>arguments[n]\<close> onwards\<close>
  "i_loop env e n [] h = h"
| "i_loop env e n (arg # rest) h =
     (let (t, h0) = (if \<not> nullish arg then (arg, h) else (let (b, hb) = alloc [] h in (JRef b, hb)));
          h1 = (if n mod 2 = 1 then forEach_o e t (a_ownKeys h0 t True) h0
                else if has_getOwnPropertyDescriptors env
                  then defineProperties e (getOwnPropertyDescriptors h0 t) h0
                else forEach_define e t (a_ownKeys h0 t False) h0)
      in i_loop env e (n + 1) rest h1)"

definition i_objectSpread :: "host \<Rightarrow> addr \<Rightarrow> jsval list \<Rightarrow> heap \<Rightarrow> addr \<times> heap" where
  \<comment> \<open>\<^verbatim>\<open>function i(e){for(...){...}return e}\<close>, called as \<^verbatim>\<open>i(e, ...sources)\<close>\<close>
  "i_objectSpread env e sources h = (e, i_loop env e 1 sources h)"

fun l_loop :: "jsval \<Rightarrow> string list \<Rightarrow> addr \<Rightarrow> string list \<Rightarrow> heap \<Rightarrow> heap" where
  \<comment> \<open>\<^verbatim>\<open>for(r=0;r<a.length;r++)t=a[r],n.indexOf(t)>=0||(o[t]=e[t])\<close>\<close>
  "l_loop e n ob [] h = h"
| "l_loop e n ob (t # ts) h =
     l_loop e n ob ts (if t \<in> set n then h else assign ob t (js_get h e t) h)"

definition l_inner :: "jsval \<Rightarrow> string list \<Rightarrow> heap \<Rightarrow> addr \<times> heap" where
  "l_inner e n h =
     (if nullish e then alloc [] h
      else (let (ob, h1) = alloc [] h;
                a = object_keys h1 e
            in (ob, l_loop e n ob a h1)))"

definition l_objectWithoutProperties :: "jsval \<Rightarrow> string list \<Rightarrow> heap \<Rightarrow> addr \<times> heap" where
  \<comment> \<open>\<^verbatim>\<open>function l(e,n)\<close>; its second loop runs over the own symbols, of which there are none\<close>
  "l_objectWithoutProperties e n h =
     (if nullish e then alloc [] h
      else (let (ob, h1) = l_inner e n h;
                h2 = l_loop e n ob (own_symbols h1 e) h1
            in (ob, h2)))"

definition p_useMDXComponents :: "host \<Rightarrow> addr \<Rightarrow> jsval \<Rightarrow> heap \<Rightarrow> error + addr \<times> heap" where
  \<comment> \<open>\<^verbatim>\<open>p=function(e){var n=r.useContext(s),t=n;
      return e&&(t="function"==typeof e?e(n):i(i({},n),e)),t}\<close>; \<open>ctx\<close> is the object that
      \<^verbatim>\<open>r.useContext(s)\<close> returns\<close>
  "p_useMDXComponents env ctx e h =
     (let n = ctx in
      if truthy e then
        (if typeof e = ''function'' then apply_components env e n h
         else (let (t0, h0) = alloc [] h;
                   (t1, h1) = i_objectSpread env t0 [JRef n] h0;
                   (t2, h2) = i_objectSpread env t1 [e] h1
               in Inr (t2, h2)))
      else Inr (n, h))"

definition d_DEFAULTS :: obj where
  \<comment> \<open>\<^verbatim>\<open>d={inlineCode:"code",wrapper:function(e){...}}\<close>\<close>
  "d_DEFAULTS = [(''inlineCode'', JStr ''code''), (''wrapper'', JHost ''wrapper'')]"

definition arg :: "jsval list \<Rightarrow> nat \<Rightarrow> jsval" where
  \<comment> \<open>\<^verbatim>\<open>arguments[k]\<close>: undefined beyond the end\<close>
  "arg xs k = (if k < length xs then xs ! k else Undefined)"

definition createElement :: "jsval list \<Rightarrow> jsval" where
  \<comment> \<open>\<^verbatim>\<open>r.createElement.apply(null, args)\<close>: the host's element, recorded as the renderer,
      the config object and the children it was given\<close>
  "createElement args = JElem (arg args 0) (arg args 1) (drop 2 args)"

definition u_MDXCreateElement :: "host \<Rightarrow> addr \<Rightarrow> addr \<Rightarrow> jsval \<Rightarrow> heap \<Rightarrow> error + jsval \<times> heap" where
  \<comment> \<open>the render function of \<^verbatim>\<open>u=r.forwardRef(function(e,n){...})\<close>: \<open>e\<close> the props object,
      \<open>n\<close> the ref. In \<^verbatim>\<open>m=u["".concat(s,".").concat(f)]||u[f]||d[f]||a\<close> the two
      \<^verbatim>\<open>concat\<close> convert \<open>s\<close> and then \<open>f\<close> to strings and may throw; the computed keys
      \<^verbatim>\<open>u[f]\<close> and \<^verbatim>\<open>d[f]\<close> convert \<open>f\<close> again, to the same string \<open>fs\<close>\<close>
  "u_MDXCreateElement env ctx e n h =
     (let t = get_prop h e ''components'';
          o' = get_prop h e ''mdxType'';
          a = get_prop h e ''originalType'';
          s = get_prop h e ''parentName'';
          (c, h1) = l_objectWithoutProperties (JRef e)
                      [''components'', ''mdxType'', ''originalType'', ''parentName''] h
      in case p_useMDXComponents env ctx t h1 of
           Inl err \<Rightarrow> Inl err
         | Inr (u, h2) \<Rightarrow>
             (let f = o' in
              case to_string env h2 s of
                Inl err \<Rightarrow> Inl err
              | Inr ss \<Rightarrow>
              (case to_string env h2 f of
                Inl err \<Rightarrow> Inl err
              | Inr fs \<Rightarrow>
              (let m = or_else (get_prop h2 u (ss @ ''.'' @ fs))
                         (or_else (get_prop h2 u fs)
                            (or_else (lookup_obj d_DEFAULTS fs) a))
               in if truthy t then
                    (let (r0, h3) = alloc [(''ref'', n)] h2;
                         (r1, h4) = i_objectSpread env r0 [JRef c] h3;
                         (e0, h5) = alloc [] h4;
                         (c0, h6) = alloc [(''components'', t)] h5;
                         (r2, h7) = i_objectSpread env r1 [JRef e0, JRef c0] h6
                     in Inr (createElement [m, JRef r2], h7))
                  else
                    (let (r0, h3) = alloc [(''ref'', n)] h2;
                         (r1, h4) = i_objectSpread env r0 [JRef c] h3
                     in Inr (createElement [m, JRef r1], h4))))))"

definition array_set :: "jsval list \<Rightarrow> nat \<Rightarrow> jsval \<Rightarrow> jsval list" where
  \<comment> \<open>\<^verbatim>\<open>xs[k] = v\<close> on an array: a write past the end extends it\<close>
  "array_set xs k v =
     (if k < length xs then xs[k := v] else xs @ replicate (k - length xs) Undefined @ [v])"

fun f_forin :: "jsval \<Rightarrow> addr \<Rightarrow> string list \<Rightarrow> heap \<Rightarrow> heap" where
  \<comment> \<open>\<^verbatim>\<open>for(var s in n)hasOwnProperty.call(n,s)&&(l[s]=n[s])\<close>, over the own keys\<close>
  "f_forin n l [] h = h"
| "f_forin n l (s # ss) h = f_forin n l ss (assign l s (js_get h n s) h)"

fun f_copy_args :: "jsval list \<Rightarrow> nat list \<Rightarrow> jsval list \<Rightarrow> jsval list" where
  \<comment> \<open>\<^verbatim>\<open>for(var p=2;p<a;p++)i[p]=t[p]\<close>, over the indices \<open>p\<close>\<close>
  "f_copy_args t [] i = i"
| "f_copy_args t (p # ps) i = f_copy_args t ps (array_set i p (arg t p))"

definition f_kt :: "jsval list \<Rightarrow> heap \<Rightarrow> jsval \<times> heap" where
  \<comment> \<open>\<^verbatim>\<open>function f(e,n)\<close>, exported as \<^verbatim>\<open>kt\<close>; \<open>t\<close> is \<^verbatim>\<open>arguments\<close>\<close>
  "f_kt t h =
     (let e = arg t 0;
          n = arg t 1;
          o' = and_then n (js_get h n ''mdxType'')
      in if typeof e = ''string'' \<or> truthy o' then
           (let a = length t;
                i0 = replicate a Undefined;
                i1 = array_set i0 0 MDXCreateElement;
                (l, h1) = alloc [] h;
                h2 = f_forin n l (object_keys h1 n) h1;
                h3 = assign l ''originalType'' e h2;
                h4 = assign l ''mdxType'' (if typeof e = ''string'' then e else o') h3;
                i2 = array_set i1 1 (JRef l);
                i3 = f_copy_args t [2..<a] i2
            in (createElement i3, h4))
         else (createElement t, h))"

section \<open>The host's side: from the element of \<^verbatim>\<open>kt\<close> to the call of \<^verbatim>\<open>u\<close>\<close>

text \<open>
  \<^verbatim>\<open>kt\<close> only builds an element whose type is \<^verbatim>\<open>u\<close>; the renderer is chosen when the host
  (React, module 7294, which is not code of this repository) renders that element and calls
  the render function of \<^verbatim>\<open>u\<close> with the element's props and ref. As React's
  \<^verbatim>\<open>createElement\<close> does, the props are a new object holding the own entries of the
  config other than \<^verbatim>\<open>key\<close>, \<^verbatim>\<open>ref\<close>, \<^verbatim>\<open>__self\<close> and \<^verbatim>\<open>__source\<close>, copied by assignment,
  then \<^verbatim>\<open>children\<close> (the child itself when there is one, an array when there are more);
  the ref is the config's \<^verbatim>\<open>ref\<close>, or null.
\<close>

fun host_copy :: "jsval \<Rightarrow> string list \<Rightarrow> addr \<Rightarrow> string list \<Rightarrow> heap \<Rightarrow> heap" where
  "host_copy config reserved props [] h = h"
| "host_copy config reserved props (k # ks) h =
     host_copy config reserved props ks
       (if k \<in> set reserved then h else assign props k (js_get h config k) h)"

definition host_props :: "jsval \<Rightarrow> jsval list \<Rightarrow> heap \<Rightarrow> addr \<times> heap" where
  "host_props config children h =
     (let (props, h1) = alloc [] h;
          h2 = (if nullish config then h1
                else host_copy config [''key'', ''ref'', ''__self'', ''__source''] props
                       (object_keys h1 config) h1);
          h3 = (case children of
                  [] \<Rightarrow> h2
                | [c] \<Rightarrow> assign props ''children'' c h2
                | _ \<Rightarrow> assign props ''children'' (JArr children) h2)
      in (props, h3))"

definition host_ref :: "heap \<Rightarrow> jsval \<Rightarrow> jsval" where
  "host_ref h config =
     (if nullish config then Null
      else (let r = js_get h config ''ref'' in if r = Undefined then Null else r))"

definition render_mdx :: "host \<Rightarrow> addr \<Rightarrow> jsval \<Rightarrow> heap \<Rightarrow> error + jsval \<times> heap" where
  \<comment> \<open>rendering an element of type \<^verbatim>\<open>u\<close>; any other value is left as it is\<close>
  "render_mdx env ctx el h =
     (case el of
        JElem ty config children \<Rightarrow>
          (if ty = MDXCreateElement then
             (let (props, h1) = host_props config children h
              in u_MDXCreateElement env ctx props (host_ref h config) h1)
           else Inr (el, h))
      | _ \<Rightarrow> Inr (el, h))"

definition kt_render :: "host \<Rightarrow> addr \<Rightarrow> jsval list \<Rightarrow> heap \<Rightarrow> error + jsval \<times> heap" where
  \<comment> \<open>\<^verbatim>\<open>kt(...args)\<close> followed by the rendering of its element\<close>
  "kt_render env ctx args h = (let (el, h1) = f_kt args h in render_mdx env ctx el h1)"

section \<open>Auxiliary notions for the proofs\<close>

definition own_entries :: "heap \<Rightarrow> jsval \<Rightarrow> obj" where
  \<comment> \<open>the own enumerable properties that \<open>object_keys\<close> and \<open>js_get\<close> see\<close>
  "own_entries h v =
     (case v of
        JRef a \<Rightarrow> load h a
      | JStr s \<Rightarrow> string_entries s
      | _ \<Rightarrow> [])"

definition spread :: "obj \<Rightarrow> obj \<Rightarrow> obj" where
  \<comment> \<open>the target object after the entries of a source were written onto it, key by key\<close>
  "spread ob es = fold (\<lambda>k. AList.update k (the (map_of es k))) (map fst es) ob"

definition without_step :: "string list \<Rightarrow> obj \<Rightarrow> string \<Rightarrow> obj \<Rightarrow> obj" where
  "without_step ns es k ob =
     (if k \<in> set ns \<or> k = ''__proto__'' then ob else AList.update k (the (map_of es k)) ob)"

definition without :: "string list \<Rightarrow> obj \<Rightarrow> obj" where
  \<comment> \<open>a new object after the entries of a source, but for some keys, were assigned to it\<close>
  "without ns es = fold (without_step ns es) (map fst es) []"

definition in_store :: "heap \<Rightarrow> jsval \<Rightarrow> bool" where
  \<comment> \<open>a reference points to an object that has been allocated\<close>
  "in_store h v = (case v of JRef a \<Rightarrow> a < length h | _ \<Rightarrow> True)"

definition read_map :: "(string \<Rightarrow> jsval option) \<Rightarrow> string \<Rightarrow> jsval" where
  \<comment> \<open>\<open>lookup_obj\<close>, on the map of an object's own properties\<close>
  "read_map m k =
     (case m k of
        Some v \<Rightarrow> v
      | None \<Rightarrow> (case map_of Object_prototype k of Some v \<Rightarrow> v | None \<Rightarrow> Undefined))"

definition merged :: "heap \<Rightarrow> addr \<Rightarrow> jsval \<Rightarrow> string \<Rightarrow> jsval option" where
  \<comment> \<open>the context's entries overridden by those of the \<^verbatim>\<open>components\<close> prop\<close>
  "merged h ctx t = map_of (load h ctx) ++ map_of (own_entries h t)"

definition pick :: "(string \<Rightarrow> jsval option) \<Rightarrow> string \<Rightarrow> string \<Rightarrow> jsval \<Rightarrow> jsval" where
  \<comment> \<open>\<^verbatim>\<open>u[ss.fs]||u[fs]||d[fs]||a\<close>, on the map of the own properties of \<^verbatim>\<open>u\<close> and the
      strings \<open>ss\<close> and \<open>fs\<close> of \<^verbatim>\<open>parentName\<close> and \<^verbatim>\<open>mdxType\<close>\<close>
  "pick m ss fs a =
     or_else (read_map m (ss @ ''.'' @ fs))
       (or_else (read_map m fs)
          (or_else (lookup_obj d_DEFAULTS fs) a))"

definition has_renderer :: "(string \<Rightarrow> jsval option) \<Rightarrow> string \<Rightarrow> bool" where
  \<comment> \<open>the mapping has an entry under the key, and its value is truthy\<close>
  "has_renderer m k = (case m k of Some v \<Rightarrow> truthy v | None \<Rightarrow> False)"

definition renderer_of :: "error + jsval \<times> heap \<Rightarrow> jsval option" where
  \<comment> \<open>the renderer of the element that a call returned\<close>
  "renderer_of r = (case r of Inr (JElem m c cs, h) \<Rightarrow> Some m | _ \<Rightarrow> None)"

definition props_of :: "error + jsval \<times> heap \<Rightarrow> obj option" where
  \<comment> \<open>the props object handed to that renderer, as it is in the final store\<close>
  "props_of r = (case r of Inr (JElem m (JRef a) cs, h) \<Rightarrow> Some (load h a) | _ \<Rightarrow> None)"

definition with_children :: "jsval list \<Rightarrow> obj \<Rightarrow> obj" where
  "with_children children ob =
     (case children of
        [] \<Rightarrow> ob
      | [c] \<Rightarrow> AList.update ''children'' c ob
      | _ \<Rightarrow> AList.update ''children'' (JArr children) ob)"

definition kt_config :: "heap \<Rightarrow> jsval \<Rightarrow> jsval \<Rightarrow> obj" where
  \<comment> \<open>the config object that \<^verbatim>\<open>kt(tag, n, ...)\<close> builds for a string tag\<close>
  "kt_config h tag n =
     AList.update ''mdxType'' tag (AList.update ''originalType'' tag (without [] (own_entries h n)))"

definition plain_host :: host where
  \<comment> \<open>a host for concrete runs: every caller-supplied function throws; no run converts an
      opaque value or a number beyond the safe integers, whose string is that of \<^verbatim>\<open>1e21\<close>\<close>
  "plain_host =
     \<lparr>apply_components = (\<lambda>f c h. Inl (Thrown Undefined)),
      call_function = (\<lambda>h f this. Inl (Thrown Undefined)),
      opaque_to_string = (\<lambda>h v. Inl (Thrown Undefined)),
      number_to_string = (\<lambda>z. ''1e+21''),
      has_getOwnPropertyDescriptors = True\<rparr>"

definition identity_host :: host where
  \<comment> \<open>a host for concrete runs: every components function is \<^verbatim>\<open>function(c){return c}\<close>,
      the rest as in \<open>plain_host\<close>\<close>
  "identity_host =
     \<lparr>apply_components = (\<lambda>f c h. Inr (c, h)),
      call_function = (\<lambda>h f this. Inl (Thrown Undefined)),
      opaque_to_string = (\<lambda>h v. Inl (Thrown Undefined)),
      number_to_string = (\<lambda>z. ''1e+21''),
      has_getOwnPropertyDescriptors = False\<rparr>"

definition leaves_alone :: "host \<Rightarrow> jsval \<Rightarrow> addr \<Rightarrow> heap \<Rightarrow> addr \<Rightarrow> bool" where
  \<comment> \<open>a components function that returns has kept the object at an address as it was\<close>
  "leaves_alone env f ctx h a =
     (case apply_components env f ctx h of
        Inl err \<Rightarrow> True
      | Inr (u, h2) \<Rightarrow> a < length h2 \<and> load h2 a = load h a)"

definition reserved_props :: "string list" where
  "reserved_props = [''key'', ''ref'', ''__self'', ''__source'']"

definition rest_names :: "string list" where
  "rest_names = [''components'', ''mdxType'', ''originalType'', ''parentName'']"

subsection \<open>Concrete stores for the runs below\<close>

definition plain_heap :: heap where
  \<comment> \<open>0: a context; 1: props with a \<^verbatim>\<open>components\<close> mapping, which is 2; 3: props without\<close>
  "plain_heap =
     [[(''code'', JFun 3), (''em'', JFun 4)],
      [(''components'', JRef 2), (''mdxType'', JStr ''code''), (''originalType'', JStr ''code''),
       (''parentName'', JStr ''pre''), (''className'', JStr ''language-json'')],
      [(''code'', JFun 1)],
      [(''mdxType'', JStr ''code''), (''originalType'', JStr ''code''), (''parentName'', JStr ''pre'')]]"

definition scoped_heap :: heap where
  \<comment> \<open>as \<open>plain_heap\<close>, with an entry under \<^verbatim>\<open>pre.code\<close> in the context\<close>
  "scoped_heap =
     [[(''pre.code'', JFun 2), (''code'', JFun 3)],
      [(''components'', JRef 2), (''mdxType'', JStr ''code''), (''originalType'', JStr ''code''),
       (''parentName'', JStr ''pre'')],
      [(''code'', JFun 1)],
      [(''mdxType'', JStr ''code''), (''originalType'', JStr ''code''), (''parentName'', JStr ''pre'')]]"

definition function_heap :: heap where
  \<comment> \<open>0: a context; 1: props whose \<^verbatim>\<open>components\<close> is a function\<close>
  "function_heap =
     [[(''code'', JFun 3)],
      [(''components'', JFun 9), (''mdxType'', JStr ''code''), (''originalType'', JStr ''code''),
       (''className'', JStr ''language-json'')]]"

definition inline_heap :: heap where
  \<comment> \<open>0: an empty context; 1: the props that \<^verbatim>\<open>u\<close> is given for
      \<^verbatim>\<open>kt("inlineCode",{parentName:"a"},"solido")\<close>; 2: those for \<^verbatim>\<open>kt("p",null,"Version:")\<close>\<close>
  "inline_heap =
     [[],
      [(''parentName'', JStr ''a''), (''originalType'', JStr ''inlineCode''),
       (''mdxType'', JStr ''inlineCode''), (''children'', JStr ''solido'')],
      [(''originalType'', JStr ''p''), (''mdxType'', JStr ''p''), (''children'', JStr ''Version:'')]]"


definition code_heap :: heap where
  \<comment> \<open>0: the context \<^verbatim>\<open>{"code": RendererX}\<close>; 1: the props \<^verbatim>\<open>{"inline": true}\<close>\<close>
  "code_heap = [[(''code'', JFun 7)], [(''inline'', JBool True)]]"

section \<open>Children forwarding\<close>

lemma f_copy_args_prefix:
  "length i = length t \<Longrightarrow> k \<le> length t \<Longrightarrow>
   f_copy_args t [k..<length t] i = take k i @ drop k t"
proof (induction "length t - k" arbitrary: k i)
  case 0
  then show ?case by simp
next
  case (Suc d)
  then have k: "k < length t" by simp
  have step: "[k..<length t] = k # [Suc k..<length t]"
    using k by (simp add: upt_conv_Cons)
  have len: "length (array_set i k (arg t k)) = length t"
    using Suc.prems k by (simp add: array_set_def)
  have "f_copy_args t [k..<length t] i = f_copy_args t [Suc k..<length t] (array_set i k (arg t k))"
    by (simp add: step)
  also have "\<dots> = take (Suc k) (array_set i k (arg t k)) @ drop (Suc k) t"
    using Suc.hyps(1)[of "Suc k" "array_set i k (arg t k)"] Suc.hyps(2) len k by simp
  also have "take (Suc k) (array_set i k (arg t k)) = take k i @ [t ! k]"
    using Suc.prems k by (simp add: array_set_def arg_def take_Suc_conv_app_nth)
  also have "(take k i @ [t ! k]) @ drop (Suc k) t = take k i @ drop k t"
    using k by (simp add: Cons_nth_drop_Suc)
  finally show ?case .
qed

lemma f_kt_args_array:
  "f_copy_args t [2..<length t]
     (array_set (array_set (replicate (length t) Undefined) 0 x) 1 y) = x # y # drop 2 t"
proof (cases "2 \<le> length t")
  case True
  let ?i = "array_set (array_set (replicate (length t) Undefined) 0 x) 1 y"
  obtain t0 t1 ts where t: "t = t0 # t1 # ts"
    using True by (auto simp: Suc_le_length_iff numeral_2_eq_2)
  have len: "length ?i = length t" by (simp add: t array_set_def)
  have tk: "take 2 ?i = [x, y]"
    by (simp add: t array_set_def)
  show ?thesis using f_copy_args_prefix[OF len True] tk by simp
next
  case False
  then have "length t = 0 \<or> length t = 1" by arith
  then show ?thesis by (auto simp: array_set_def)
qed

text \<open>
  C7. Whatever arguments \<^verbatim>\<open>kt\<close> is called with, the element it produces has for children
  the arguments after the second, in call order: the renderer and the config come first,
  and both branches of \<^verbatim>\<open>f\<close> hand the remaining arguments on unchanged.
\<close>

theorem f_kt_children_in_call_order:
  "\<exists>m c h'. f_kt (e # n # children) h = (JElem m c children, h')"
proof -
  let ?t = "e # n # children"
  have "f_copy_args ?t [2..<length ?t]
          (array_set (array_set (replicate (length ?t) Undefined) 0 x) 1 y) = x # y # children"
    for x y using f_kt_args_array[of ?t x y] by simp
  then show ?thesis
    by (auto simp: f_kt_def Let_def createElement_def arg_def split: prod.splits)
qed

section \<open>The object store and the helpers\<close>


lemma load_append_old: "a < length h \<Longrightarrow> load (h @ xs) a = load h a"
  by (simp add: load_def nth_append)

lemma load_append_new: "load (h @ [ob]) (length h) = ob"
  by (simp add: load_def)

lemma load_store_same: "a < length h \<Longrightarrow> load (store a ob h) a = ob"
  by (simp add: load_def store_def)

lemma load_store_other: "b \<noteq> a \<Longrightarrow> load (store a ob h) b = load h b"
  by (simp add: load_def store_def)

lemma length_store: "length (store a ob h) = length h"
  by (simp add: store_def)

lemma store_store: "store a x (store a y h) = store a x h"
  by (simp add: store_def)

lemma store_append_new: "store (length h) x (h @ [y]) = h @ [x]"
  by (simp add: store_def)

lemma proto_key_in: "''__proto__'' \<in> fst ` set Object_prototype"
  by (simp add: Object_prototype_def)

lemma o_defineProperty_store:
  "o_defineProperty e n t h = store e (AList.update n t (load h e)) h"
  using proto_key_in
  by (auto simp: o_defineProperty_def define_property_def assign_def js_in_def)

lemma own_entries_store:
  "t \<noteq> JRef e \<Longrightarrow> own_entries (store e ob h) t = own_entries h t"
  by (cases t) (auto simp: own_entries_def load_store_other)

lemma object_keys_entries: "object_keys h t = map fst (own_entries h t)"
  by (cases t) (auto simp: object_keys_def own_entries_def)

lemma js_get_entries:
  "map_of (own_entries h t) k = Some v \<Longrightarrow> js_get h t k = v"
  by (cases t) (auto simp: js_get_def own_entries_def get_prop_def lookup_obj_def)

lemma js_get_own_key:
  "k \<in> fst ` set (own_entries h t) \<Longrightarrow> js_get h t k = the (map_of (own_entries h t) k)"
proof -
  assume "k \<in> fst ` set (own_entries h t)"
  then obtain v where "map_of (own_entries h t) k = Some v"
    by (metis domD dom_map_of_conv_image_fst)
  then show ?thesis by (simp add: js_get_entries)
qed

lemma forEach_o_fold:
  assumes "e < length h" "t \<noteq> JRef e" "set ks \<subseteq> fst ` set (own_entries h t)"
  shows "forEach_o e t ks h =
         store e (fold (\<lambda>k. AList.update k (the (map_of (own_entries h t) k))) ks (load h e)) h"
  using assms
proof (induction ks arbitrary: h)
  case Nil
  then show ?case by (simp add: store_def load_def)
next
  case (Cons k ks)
  let ?v = "the (map_of (own_entries h t) k)"
  let ?h = "store e (AList.update k ?v (load h e)) h"
  have g: "js_get h t k = ?v" using Cons.prems by (simp add: js_get_own_key)
  have ent: "own_entries ?h t = own_entries h t"
    using Cons.prems by (simp add: own_entries_store)
  have "forEach_o e t (k # ks) h = forEach_o e t ks ?h"
    by (simp add: o_defineProperty_store g)
  also have "\<dots> = store e (fold (\<lambda>k. AList.update k (the (map_of (own_entries ?h t) k))) ks (load ?h e)) ?h"
    using Cons.prems by (intro Cons.IH) (simp_all add: length_store ent)
  also have "\<dots> = store e (fold (\<lambda>k. AList.update k (the (map_of (own_entries h t) k))) (k # ks) (load h e)) h"
    using Cons.prems by (simp add: ent load_store_same store_store)
  finally show ?case .
qed

lemma forEach_o_spread:
  assumes "e < length h" "t \<noteq> JRef e"
  shows "forEach_o e t (a_ownKeys h t b) h = store e (spread (load h e) (own_entries h t)) h"
  using forEach_o_fold[OF assms, of "map fst (own_entries h t)"]
  by (simp add: a_ownKeys_def own_symbols_def object_keys_entries spread_def)

lemma i_objectSpread_single:
  assumes "e < length h" "t \<noteq> JRef e" "\<not> nullish t"
  shows "i_objectSpread env e [t] h = (e, store e (spread (load h e) (own_entries h t)) h)"
  using assms by (simp add: i_objectSpread_def forEach_o_spread)

lemma map_of_fold_update:
  "map_of (fold (\<lambda>k. AList.update k (g k)) ks ob) =
     map_of ob ++ (\<lambda>k. if k \<in> set ks then Some (g k) else None)"
proof (induction ks arbitrary: ob)
  case Nil
  then show ?case by (simp add: map_add_def)
next
  case (Cons k ks)
  show ?case
    by (auto simp: Cons.IH update_conv' map_add_def fun_eq_iff split: option.splits)
qed

lemma map_of_spread: "map_of (spread ob es) = map_of ob ++ map_of es"
proof -
  have "(\<lambda>k. if k \<in> set (map fst es) then Some (the (map_of es k)) else None) = map_of es"
  proof
    fix k
    show "(if k \<in> set (map fst es) then Some (the (map_of es k)) else None) = map_of es k"
      using map_of_eq_None_iff[of es k] by (cases "map_of es k") auto
  qed
  then show ?thesis by (simp add: spread_def map_of_fold_update)
qed


lemma assign_store:
  "n \<noteq> ''__proto__'' \<Longrightarrow> assign e n t h = store e (AList.update n t (load h e)) h"
  by (simp add: assign_def)

lemma assign_proto:
  "''__proto__'' \<notin> fst ` set (load h e) \<Longrightarrow> assign e ''__proto__'' t h = h"
  by (simp add: assign_def)

lemma keys_update: "fst ` set (AList.update k v al) = insert k (fst ` set al)"
  by (simp add: dom_update)

lemma without_step_keys:
  "''__proto__'' \<notin> fst ` set ob \<Longrightarrow> ''__proto__'' \<notin> fst ` set (without_step ns es k ob)"
  by (auto simp: without_step_def keys_update)

lemma l_loop_fold:
  assumes "ob < length h" "e \<noteq> JRef ob" "set ks \<subseteq> fst ` set (own_entries h e)"
    "''__proto__'' \<notin> fst ` set (load h ob)"
  shows "l_loop e n ob ks h = store ob (fold (without_step n (own_entries h e)) ks (load h ob)) h"
  using assms
proof (induction ks arbitrary: h)
  case Nil
  then show ?case by (simp add: store_def load_def)
next
  case (Cons k ks)
  let ?es = "own_entries h e"
  let ?ob = "without_step n ?es k (load h ob)"
  let ?h = "store ob ?ob h"
  have g: "js_get h e k = the (map_of ?es k)" using Cons.prems by (simp add: js_get_own_key)
  have step: "(if k \<in> set n then h else assign ob k (js_get h e k) h) = ?h"
  proof (cases "k \<in> set n \<or> k = ''__proto__''")
    case True
    then show ?thesis
      using Cons.prems by (auto simp: without_step_def assign_proto store_def load_def)
  next
    case False
    then show ?thesis by (simp add: without_step_def assign_store g)
  qed
  have ent: "own_entries ?h e = ?es" using Cons.prems by (simp add: own_entries_store)
  have ld: "load ?h ob = ?ob" using Cons.prems by (simp add: load_store_same)
  have "l_loop e n ob (k # ks) h = l_loop e n ob ks ?h" by (simp add: step)
  also have "\<dots> = store ob (fold (without_step n (own_entries ?h e)) ks (load ?h ob)) ?h"
    using Cons.prems by (intro Cons.IH) (simp_all add: length_store ent ld without_step_keys)
  also have "\<dots> = store ob (fold (without_step n ?es) (k # ks) (load h ob)) h"
    by (simp add: ent ld store_store)
  finally show ?case .
qed

lemma without_fold: "without ns es = fold (without_step ns es) (map fst es) []"
  by (simp add: without_def)

lemma l_loop_without:
  assumes "e \<noteq> JRef (length h)"
  shows "l_loop e n (length h) (object_keys (h @ [[]]) e) (h @ [[]]) = h @ [without n (own_entries h e)]"
proof -
  have ent: "own_entries (h @ [[]]) e = own_entries h e"
    using assms by (cases e) (auto simp: own_entries_def load_def nth_append)
  have "l_loop e n (length h) (map fst (own_entries (h @ [[]]) e)) (h @ [[]]) =
        store (length h) (fold (without_step n (own_entries (h @ [[]]) e)) (map fst (own_entries (h @ [[]]) e)) (load (h @ [[]]) (length h))) (h @ [[]])"
    using assms by (intro l_loop_fold) (simp_all add: load_append_new)
  then show ?thesis
    by (simp add: object_keys_entries ent load_append_new store_append_new without_fold)
qed

lemma map_of_fold_without_step:
  "map_of (fold (without_step ns es) ks ob) k =
     (if k \<in> set ks \<and> k \<notin> set ns \<and> k \<noteq> ''__proto__'' then Some (the (map_of es k)) else map_of ob k)"
proof (induction ks arbitrary: ob)
  case Nil
  then show ?case by simp
next
  case (Cons x ks)
  have st: "map_of (without_step ns es x ob) j =
          (if j = x \<and> x \<notin> set ns \<and> x \<noteq> ''__proto__'' then Some (the (map_of es j)) else map_of ob j)"
    for j by (simp add: without_step_def update_conv')
  show ?case by (auto simp: Cons.IH st)
qed

lemma map_of_without:
  "map_of (without ns es) k = (if k \<in> set ns \<or> k = ''__proto__'' then None else map_of es k)"
proof -
  have "k \<in> fst ` set es \<Longrightarrow> Some (the (map_of es k)) = map_of es k"
    using map_of_eq_None_iff[of es k] by (cases "map_of es k") auto
  moreover have "k \<notin> fst ` set es \<Longrightarrow> map_of es k = None"
    by (simp add: map_of_eq_None_iff)
  ultimately show ?thesis by (auto simp: without_fold map_of_fold_without_step)
qed

lemma l_objectWithoutProperties_eq:
  assumes "e < length h"
  shows "l_objectWithoutProperties (JRef e) n h = (length h, h @ [without n (load h e)])"
proof -
  have ne: "JRef e \<noteq> JRef (length h)" using assms by simp
  have "l_inner (JRef e) n h = (length h, h @ [without n (own_entries h (JRef e))])"
    using l_loop_without[OF ne] by (simp add: l_inner_def nullish_def alloc_def)
  then show ?thesis
    by (simp add: l_objectWithoutProperties_def nullish_def own_symbols_def own_entries_def)
qed


lemma lookup_obj_read_map: "lookup_obj ob k = read_map (map_of ob) k"
  by (simp add: lookup_obj_def read_map_def)

lemma own_entries_append: "in_store h v \<Longrightarrow> own_entries (h @ xs) v = own_entries h v"
  by (cases v) (auto simp: own_entries_def in_store_def load_append_old)

lemma own_entries_falsy: "\<not> truthy v \<Longrightarrow> own_entries h v = []"
  by (cases v) (auto simp: own_entries_def string_entries_def)

lemma truthy_not_nullish: "truthy v \<Longrightarrow> \<not> nullish v"
  by (auto simp: nullish_def)

lemma p_useMDXComponents_falsy:
  "\<not> truthy e \<Longrightarrow> p_useMDXComponents env ctx e h = Inr (ctx, h)"
  by (simp add: p_useMDXComponents_def)

lemma p_useMDXComponents_object:
  assumes "truthy e" "typeof e \<noteq> ''function''" "ctx < length h" "in_store h e"
  shows "p_useMDXComponents env ctx e h =
           Inr (length h, h @ [spread (spread [] (load h ctx)) (own_entries h e)])"
proof -
  let ?h0 = "h @ [[]]"
  let ?c = "spread [] (load h ctx)"
  have 1: "i_objectSpread env (length h) [JRef ctx] ?h0 = (length h, h @ [?c])"
    using assms(3)
    by (subst i_objectSpread_single)
       (simp_all add: nullish_def own_entries_def load_append_old load_append_new store_append_new)
  have ne: "e \<noteq> JRef (length h)" using assms(4) by (auto simp: in_store_def)
  have 2: "i_objectSpread env (length h) [e] (h @ [?c]) =
             (length h, h @ [spread ?c (own_entries h e)])"
    using assms(1,4) ne
    by (subst i_objectSpread_single)
       (simp_all add: truthy_not_nullish own_entries_append load_append_new store_append_new)
  show ?thesis
    using assms(1,2) by (simp add: p_useMDXComponents_def alloc_def 1 2)
qed

lemma i_objectSpread_components:
  assumes "r < length h" "r \<noteq> length h" "r \<noteq> Suc (length h)"
  shows "i_objectSpread env r [JRef (length h), JRef (Suc (length h))] (h @ [[], [(''components'', t)]])
         = (r, store r (AList.update ''components'' t (load h r)) h @ [[], [(''components'', t)]])"
proof -
  let ?h = "h @ [[], [(''components'', t)]]"
  have k0: "a_ownKeys ?h (JRef (length h)) b = []" for b
    by (simp add: a_ownKeys_def object_keys_def own_symbols_def load_def nth_append)
  have k1: "object_keys ?h (JRef (Suc (length h))) = [''components'']"
    by (simp add: object_keys_def load_def nth_append)
  have g1: "js_get ?h (JRef (Suc (length h))) ''components'' = t"
    by (simp add: js_get_def get_prop_def lookup_obj_def load_def nth_append)
  have ld: "load ?h r = load h r" using assms by (simp add: load_def nth_append)
  have st: "store r x ?h = store r x h @ [[], [(''components'', t)]]" for x
    using assms by (simp add: store_def list_update_append)
  have k2: "a_ownKeys ?h (JRef (Suc (length h))) b = [''components'']" for b
    by (simp add: a_ownKeys_def k1 own_symbols_def)
  show ?thesis
    by (simp add: i_objectSpread_def nullish_def k0 getOwnPropertyDescriptors_def k1 k2 g1
        define_property_def ld st)
qed


lemma to_string_primitive:
  "\<not> is_object v \<Longrightarrow> to_string env h v = prim_to_string env v"
  by (cases v) (simp_all add: to_string_def)

lemma to_string_JStr: "to_string env h (JStr s) = Inr s"
  by (simp add: to_string_def)

lemma to_string_Undefined: "to_string env h Undefined = Inr ''undefined''"
  by (simp add: to_string_def)

lemma u_MDXCreateElement_after_p:
  assumes e: "e < length h"
    and p: "p_useMDXComponents env ctx (get_prop h e ''components'')
              (h @ [without rest_names (load h e)]) = Inr (u', h2)"
    and len: "length h < length h2"
    and frame: "load h2 (length h) = without rest_names (load h e)"
    and cs: "to_string env h2 (get_prop h e ''parentName'') = Inr ss"
    and cf: "to_string env h2 (get_prop h e ''mdxType'') = Inr fs"
  shows "u_MDXCreateElement env ctx e n h =
           Inr (JElem (pick (map_of (load h2 u')) ss fs (get_prop h e ''originalType''))
                  (JRef (length h2)) [],
                h2 @ (if truthy (get_prop h e ''components'')
                      then [AList.update ''components'' (get_prop h e ''components'')
                              (spread [(''ref'', n)] (without rest_names (load h e))), [],
                            [(''components'', get_prop h e ''components'')]]
                      else [spread [(''ref'', n)] (without rest_names (load h e))]))"
proof -
  let ?t = "get_prop h e ''components''"
  let ?c = "without rest_names (load h e)"
  let ?R = "spread [(''ref'', n)] ?c"
  have l: "l_objectWithoutProperties (JRef e) [''components'', ''mdxType'', ''originalType'', ''parentName''] h
             = (length h, h @ [?c])"
    using l_objectWithoutProperties_eq[OF e, of rest_names] by (simp add: rest_names_def)
  have i1: "i_objectSpread env (length h2) [JRef (length h)] (h2 @ [[(''ref'', n)]]) = (length h2, h2 @ [?R])"
    using len frame
    by (subst i_objectSpread_single)
       (simp_all add: nullish_def own_entries_def load_append_old load_append_new store_append_new)
  have i2: "i_objectSpread env (length h2) [JRef (Suc (length h2)), JRef (Suc (Suc (length h2)))]
              (h2 @ [?R, [], [(''components'', ?t)]])
            = (length h2, h2 @ [AList.update ''components'' ?t ?R, [], [(''components'', ?t)]])"
    using i_objectSpread_components[of "length h2" "h2 @ [?R]" env ?t]
    by (simp add: load_append_new store_append_new)
  have m: "get_prop h2 u' k = read_map (map_of (load h2 u')) k" for k
    by (simp add: get_prop_def lookup_obj_read_map)
  show ?thesis
    by (simp add: u_MDXCreateElement_def l p cs cf alloc_def i1 i2 m pick_def createElement_def
        arg_def Let_def)
qed

lemma merged_falsy: "\<not> truthy t \<Longrightarrow> merged h ctx t = map_of (load h ctx)"
  by (simp add: merged_def own_entries_falsy)

lemma u_MDXCreateElement_falsy:
  assumes "e < length h" "ctx < length h" "\<not> truthy (get_prop h e ''components'')"
    and cs: "\<And>xs. to_string env (h @ xs) (get_prop h e ''parentName'') = Inr ss"
    and cf: "\<And>xs. to_string env (h @ xs) (get_prop h e ''mdxType'') = Inr fs"
  shows "u_MDXCreateElement env ctx e n h =
           Inr (JElem (pick (merged h ctx (get_prop h e ''components'')) ss fs
                         (get_prop h e ''originalType''))
                  (JRef (Suc (length h))) [],
                h @ [without rest_names (load h e),
                     spread [(''ref'', n)] (without rest_names (load h e))])"
  using assms(1-3)
    u_MDXCreateElement_after_p[of e h env ctx ctx "h @ [without rest_names (load h e)]" ss fs n]
  by (simp add: p_useMDXComponents_falsy load_append_new load_append_old merged_falsy cs cf)

lemma u_MDXCreateElement_truthy:
  assumes "e < length h" "ctx < length h" "truthy (get_prop h e ''components'')"
    "typeof (get_prop h e ''components'') \<noteq> ''function''" "in_store h (get_prop h e ''components'')"
    and cs: "\<And>xs. to_string env (h @ xs) (get_prop h e ''parentName'') = Inr ss"
    and cf: "\<And>xs. to_string env (h @ xs) (get_prop h e ''mdxType'') = Inr fs"
  shows "u_MDXCreateElement env ctx e n h =
           Inr (JElem (pick (merged h ctx (get_prop h e ''components'')) ss fs
                         (get_prop h e ''originalType''))
                  (JRef (Suc (Suc (length h)))) [],
                h @ [without rest_names (load h e),
                     spread (spread [] (load h ctx)) (own_entries h (get_prop h e ''components'')),
                     AList.update ''components'' (get_prop h e ''components'')
                       (spread [(''ref'', n)] (without rest_names (load h e))), [],
                     [(''components'', get_prop h e ''components'')]])"
proof -
  let ?t = "get_prop h e ''components''"
  let ?h1 = "h @ [without rest_names (load h e)]"
  let ?M = "spread (spread [] (load h ctx)) (own_entries h ?t)"
  have st: "in_store ?h1 ?t" using assms(5) by (cases ?t) (auto simp: in_store_def)
  have p: "p_useMDXComponents env ctx ?t ?h1 = Inr (length ?h1, ?h1 @ [?M])"
    using p_useMDXComponents_object[OF assms(3,4), of ctx ?h1 env] assms(2,5) st
    by (simp add: load_append_old own_entries_append)
  have mm: "map_of ?M = merged h ctx ?t"
    by (simp add: map_of_spread merged_def)
  have len: "length h < length (?h1 @ [?M])" by simp
  have fr: "load (?h1 @ [?M]) (length h) = without rest_names (load h e)"
    using load_append_old[of "length h" ?h1 "[?M]"] by (simp add: load_append_new)
  have lu: "load (?h1 @ [?M]) (length ?h1) = ?M" by (rule load_append_new)
  have cs': "to_string env (?h1 @ [?M]) (get_prop h e ''parentName'') = Inr ss"
    using cs[of "[without rest_names (load h e), ?M]"] by simp
  have cf': "to_string env (?h1 @ [?M]) (get_prop h e ''mdxType'') = Inr fs"
    using cf[of "[without rest_names (load h e), ?M]"] by simp
  show ?thesis
    using u_MDXCreateElement_after_p[OF assms(1) p len fr cs' cf', of n] assms(3)
    by (simp only: lu mm) simp
qed

lemma u_renderer:
  assumes "e < length h" "ctx < length h"
    "typeof (get_prop h e ''components'') \<noteq> ''function''" "in_store h (get_prop h e ''components'')"
    and cs: "\<And>xs. to_string env (h @ xs) (get_prop h e ''parentName'') = Inr ss"
    and cf: "\<And>xs. to_string env (h @ xs) (get_prop h e ''mdxType'') = Inr fs"
  shows "renderer_of (u_MDXCreateElement env ctx e n h) =
           Some (pick (merged h ctx (get_prop h e ''components'')) ss fs
                   (get_prop h e ''originalType''))"
proof (cases "truthy (get_prop h e ''components'')")
  case True
  show ?thesis
    by (simp add: u_MDXCreateElement_truthy[OF assms(1,2) True assms(3,4) cs cf] renderer_of_def)
next
  case False
  show ?thesis
    by (simp add: u_MDXCreateElement_falsy[OF assms(1,2) False cs cf] renderer_of_def)
qed

lemma u_props:
  assumes "e < length h" "ctx < length h"
    "typeof (get_prop h e ''components'') \<noteq> ''function''" "in_store h (get_prop h e ''components'')"
    and cs: "\<And>xs. to_string env (h @ xs) (get_prop h e ''parentName'') = Inr ss"
    and cf: "\<And>xs. to_string env (h @ xs) (get_prop h e ''mdxType'') = Inr fs"
  shows "props_of (u_MDXCreateElement env ctx e n h) =
           Some (if truthy (get_prop h e ''components'')
                 then AList.update ''components'' (get_prop h e ''components'')
                        (spread [(''ref'', n)] (without rest_names (load h e)))
                 else spread [(''ref'', n)] (without rest_names (load h e)))"
proof (cases "truthy (get_prop h e ''components'')")
  case True
  show ?thesis
    using True
    by (simp add: u_MDXCreateElement_truthy[OF assms(1,2) True assms(3,4) cs cf] props_of_def
        load_def nth_append)
next
  case False
  show ?thesis
    using False
    by (simp add: u_MDXCreateElement_falsy[OF assms(1,2) False cs cf] props_of_def
        load_def nth_append)
qed

subsection \<open>What holds of every call\<close>

lemma store_load_id: "store e (load h e) h = h"
  by (simp add: store_def load_def list_update_beyond)

lemma forEach_o_frame: "\<exists>ob. forEach_o e t ks h = store e ob h"
proof (induction ks arbitrary: h)
  case Nil
  show ?case using store_load_id[of e h] by (metis forEach_o.simps(1))
next
  case (Cons k ks)
  obtain ob where "forEach_o e t ks (store e (AList.update k (js_get h t k) (load h e)) h)
                     = store e ob (store e (AList.update k (js_get h t k) (load h e)) h)"
    using Cons.IH by blast
  then show ?case by (auto simp: o_defineProperty_store store_store)
qed

lemma i_objectSpread_frame:
  "\<not> nullish t \<Longrightarrow> \<exists>ob. i_objectSpread env e [t] h = (e, store e ob h)"
  using forEach_o_frame[of e t "a_ownKeys h t True" h] by (simp add: i_objectSpread_def)

lemma p_useMDXComponents_new:
  assumes "truthy e" "typeof e \<noteq> ''function''"
  shows "\<exists>ob. p_useMDXComponents env ctx e h = Inr (length h, h @ [ob])"
proof -
  obtain ob1 where 1: "i_objectSpread env (length h) [JRef ctx] (h @ [[]]) = (length h, h @ [ob1])"
    using i_objectSpread_frame[of "JRef ctx" env "length h" "h @ [[]]"]
    by (auto simp: nullish_def store_append_new)
  obtain ob2 where 2: "i_objectSpread env (length h) [e] (h @ [ob1]) = (length h, h @ [ob2])"
    using i_objectSpread_frame[OF truthy_not_nullish[OF assms(1)], of env "length h" "h @ [ob1]"]
    by (auto simp: store_append_new)
  show ?thesis using assms by (simp add: p_useMDXComponents_def alloc_def 1 2)
qed





section \<open>Resolution of the renderer in \<^verbatim>\<open>u\<close>\<close>

text \<open>
  The statements of this section are about the render function \<^verbatim>\<open>u\<close> on a props object as
  the host hands it over: an object of the store without an own \<^verbatim>\<open>__proto__\<close> property (the
  host fills its props by assignment). The strings \<open>s\<close> and \<open>t\<close> of \<^verbatim>\<open>parentName\<close> and
  \<^verbatim>\<open>mdxType\<close> are those that \<^verbatim>\<open>ToString\<close> yields; for a value that is not primitive the
  conversion reads the store, so it is taken in every store that extends the given one.
\<close>

lemmas heap_eval = get_prop_def load_def lookup_obj_def in_store_def merged_def own_entries_def
  has_renderer_def map_add_def read_map_def or_else_def pick_def

lemma proto_keys_no_dot: "k \<in> fst ` set Object_prototype \<Longrightarrow> CHR ''.'' \<notin> set k"
  by (auto simp: Object_prototype_def)

lemma proto_dotted: "map_of Object_prototype (s @ ''.'' @ t) = None"
proof -
  have "CHR ''.'' \<in> set (s @ ''.'' @ t)" by simp
  then have "s @ ''.'' @ t \<notin> fst ` set Object_prototype"
    using proto_keys_no_dot by blast
  then show ?thesis by (simp add: map_of_eq_None_iff)
qed

lemma read_map_dotted_falsy:
  "\<not> has_renderer m (s @ ''.'' @ t) \<Longrightarrow> \<not> truthy (read_map m (s @ ''.'' @ t))"
  using proto_dotted[of s t]
  by (auto simp: has_renderer_def read_map_def split: option.splits)

lemma pick_scoped:
  "m (s @ ''.'' @ t) = Some R \<Longrightarrow> truthy R \<Longrightarrow> pick m s t a = R"
  by (simp add: pick_def read_map_def or_else_def)

lemma pick_plain:
  "\<not> has_renderer m (s @ ''.'' @ t) \<Longrightarrow> m t = Some R \<Longrightarrow> truthy R \<Longrightarrow> pick m s t a = R"
  using read_map_dotted_falsy[of m s t]
  by (simp add: pick_def or_else_def) (simp add: read_map_def)

lemma read_map_falsy:
  "\<not> has_renderer m k \<Longrightarrow> k \<notin> fst ` set Object_prototype \<Longrightarrow> \<not> truthy (read_map m k)"
  by (auto simp: has_renderer_def read_map_def map_of_eq_None_iff[symmetric] split: option.splits)

lemma pick_fallback:
  assumes "\<not> has_renderer m (s @ ''.'' @ t)" "\<not> has_renderer m t"
    "t \<notin> fst ` set Object_prototype" "t \<notin> fst ` set d_DEFAULTS"
  shows "pick m s t a = a"
proof -
  have "lookup_obj d_DEFAULTS t = Undefined"
    using assms(3,4) by (simp add: lookup_obj_def map_of_eq_None_iff[symmetric] split: option.splits)
  then show ?thesis
    using read_map_dotted_falsy[OF assms(1)] read_map_falsy[OF assms(2,3)]
    by (simp add: pick_def or_else_def)
qed



text \<open>
  C9. Scoped lookup comes first. When \<^verbatim>\<open>parentName\<close> converts to the string \<open>s\<close> and the
  tag (\<^verbatim>\<open>mdxType\<close>) to \<open>t\<close>, and the merged components mapping (the context overridden by
  the \<^verbatim>\<open>components\<close> prop, which is absent or a mapping) has a renderer under the dotted
  key \<^verbatim>\<open>s.t\<close>, that renderer is the one chosen, whatever the plain entries for \<open>t\<close> in the
  context and in the \<^verbatim>\<open>components\<close> prop are. An entry is a renderer when its value is
  truthy: the lookup is \<^verbatim>\<open>u[s.t] || u[t] || ...\<close>.
\<close>

theorem scoped_entry_chosen:
  assumes "e < length h" "ctx < length h"
    and "''__proto__'' \<notin> fst ` set (load h e)"
    and "typeof (get_prop h e ''components'') \<noteq> ''function''"
    and "in_store h (get_prop h e ''components'')"
    and "\<And>xs. to_string env (h @ xs) (get_prop h e ''parentName'') = Inr s"
    and "\<And>xs. to_string env (h @ xs) (get_prop h e ''mdxType'') = Inr t"
    and "merged h ctx (get_prop h e ''components'') (s @ ''.'' @ t) = Some R"
    and "truthy R"
  shows "renderer_of (u_MDXCreateElement env ctx e n h) = Some R"
  using u_renderer[OF assms(1,2,4,5,6,7), of n]
    pick_scoped[of "merged h ctx (get_prop h e ''components'')" s t R, OF assms(8,9)] by simp

theorem scoped_entry_chosen_witness:
  "get_prop scoped_heap 1 ''components'' = JRef 2 \<and>
   get_prop scoped_heap 1 ''parentName'' = JStr ''pre'' \<and>
   get_prop scoped_heap 1 ''mdxType'' = JStr ''code'' \<and>
   map_of (load scoped_heap 0) ''code'' = Some (JFun 3) \<and>
   map_of (load scoped_heap 2) ''code'' = Some (JFun 1) \<and>
   merged scoped_heap 0 (JRef 2) ''pre.code'' = Some (JFun 2) \<and>
   renderer_of (u_MDXCreateElement plain_host 0 1 Null scoped_heap) = Some (JFun 2)"
proof -
  have 1: "1 < length scoped_heap" "0 < length scoped_heap"
    by (simp_all add: scoped_heap_def)
  have np: "''__proto__'' \<notin> fst ` set (load scoped_heap 1)"
    by (simp add: scoped_heap_def load_def)
  have 2: "get_prop scoped_heap 1 ''components'' = JRef 2"
    by (simp add: scoped_heap_def heap_eval)
  have 3: "typeof (get_prop scoped_heap 1 ''components'') \<noteq> ''function''"
    "in_store scoped_heap (get_prop scoped_heap 1 ''components'')"
    by (simp_all add: scoped_heap_def heap_eval)
  have pn: "get_prop scoped_heap 1 ''parentName'' = JStr ''pre''"
    and mt: "get_prop scoped_heap 1 ''mdxType'' = JStr ''code''"
    by (simp_all add: scoped_heap_def heap_eval)
  have 4: "to_string plain_host (scoped_heap @ xs) (get_prop scoped_heap 1 ''parentName'') = Inr ''pre''"
    for xs by (simp only: pn to_string_JStr)
  have 5: "to_string plain_host (scoped_heap @ xs) (get_prop scoped_heap 1 ''mdxType'') = Inr ''code''"
    for xs by (simp only: mt to_string_JStr)
  have 6: "merged scoped_heap 0 (JRef 2) ''pre.code'' = Some (JFun 2)"
    by (simp add: scoped_heap_def heap_eval)
  have 7: "merged scoped_heap 0 (get_prop scoped_heap 1 ''components'') (''pre'' @ ''.'' @ ''code'')
             = Some (JFun 2)"
    using 6 by (simp only: 2) simp
  have 8: "truthy (JFun 2)" by simp
  have 9: "map_of (load scoped_heap 0) ''code'' = Some (JFun 3)"
    "map_of (load scoped_heap 2) ''code'' = Some (JFun 1)"
    by (simp_all add: scoped_heap_def heap_eval)
  show ?thesis
    using scoped_entry_chosen[OF 1 np 3 4 5 7 8, of Null] 2 pn mt 6 9 by simp
qed

text \<open>
  C1, as amended. Let the \<^verbatim>\<open>components\<close> prop be a mapping that assigns the renderer
  \<open>R'\<close> (a truthy value) to the tag \<open>t\<close>, and let \<^verbatim>\<open>parentName\<close> convert to the string
  \<open>s\<close>. Then \<open>R'\<close> is chosen whatever the context holds under \<open>t\<close>, provided the merged
  mapping has no renderer under the dotted key \<^verbatim>\<open>s.t\<close>. The proviso is needed: an entry
  under the dotted key, which may come from the context, is looked up first.
\<close>

theorem override_chosen_unless_scoped:
  assumes "e < length h" "ctx < length h" "ov < length h"
    and "''__proto__'' \<notin> fst ` set (load h e)"
    and "get_prop h e ''components'' = JRef ov"
    and "get_prop h e ''mdxType'' = JStr t"
    and "\<And>xs. to_string env (h @ xs) (get_prop h e ''parentName'') = Inr s"
    and "map_of (load h ov) t = Some R'" "truthy R'"
    and "\<not> has_renderer (merged h ctx (JRef ov)) (s @ ''.'' @ t)"
  shows "renderer_of (u_MDXCreateElement env ctx e n h) = Some R'"
proof -
  have m: "merged h ctx (JRef ov) t = Some R'"
    using assms(8) by (simp add: merged_def own_entries_def)
  have c: "typeof (get_prop h e ''components'') \<noteq> ''function''"
    "in_store h (get_prop h e ''components'')"
    using assms(3) by (simp_all add: assms(5) in_store_def)
  have cf: "to_string env (h @ xs) (get_prop h e ''mdxType'') = Inr t" for xs
    by (simp only: assms(6) to_string_JStr)
  have "renderer_of (u_MDXCreateElement env ctx e n h) =
          Some (pick (merged h ctx (JRef ov)) s t (get_prop h e ''originalType''))"
    using u_renderer[OF assms(1,2) c assms(7) cf, of n] by (simp add: assms(5))
  then show ?thesis using pick_plain[OF assms(10) m assms(9)] by simp
qed

theorem override_chosen_unless_scoped_witness:
  "get_prop plain_heap 1 ''components'' = JRef 2 \<and>
   get_prop plain_heap 1 ''mdxType'' = JStr ''code'' \<and>
   get_prop plain_heap 1 ''parentName'' = JStr ''pre'' \<and>
   map_of (load plain_heap 0) ''code'' = Some (JFun 3) \<and>
   map_of (load plain_heap 2) ''code'' = Some (JFun 1) \<and>
   renderer_of (u_MDXCreateElement plain_host 0 1 Null plain_heap) = Some (JFun 1)"
proof -
  have 1: "1 < length plain_heap" "0 < length plain_heap" "2 < length plain_heap"
    by (simp_all add: plain_heap_def)
  have np: "''__proto__'' \<notin> fst ` set (load plain_heap 1)"
    by (simp add: plain_heap_def load_def)
  have 2: "get_prop plain_heap 1 ''components'' = JRef 2"
    by (simp add: plain_heap_def heap_eval)
  have 3: "get_prop plain_heap 1 ''mdxType'' = JStr ''code''"
    by (simp add: plain_heap_def heap_eval)
  have pn: "get_prop plain_heap 1 ''parentName'' = JStr ''pre''"
    by (simp add: plain_heap_def heap_eval)
  have 4: "to_string plain_host (plain_heap @ xs) (get_prop plain_heap 1 ''parentName'') = Inr ''pre''"
    for xs by (simp only: pn to_string_JStr)
  have 5: "map_of (load plain_heap 2) ''code'' = Some (JFun 1)"
    by (simp add: plain_heap_def heap_eval)
  have 6: "truthy (JFun 1)" by simp
  have 7: "\<not> has_renderer (merged plain_heap 0 (JRef 2)) (''pre'' @ ''.'' @ ''code'')"
    by (simp add: plain_heap_def heap_eval)
  have 8: "map_of (load plain_heap 0) ''code'' = Some (JFun 3)"
    by (simp add: plain_heap_def heap_eval)
  show ?thesis
    using override_chosen_unless_scoped[OF 1 np 2 3 4 5 6 7, of Null] 2 3 pn 5 8 by simp
qed

text \<open>
  The claim as written fails: the \<^verbatim>\<open>components\<close> prop assigns \<^verbatim>\<open>JFun 1\<close> to the tag
  \<^verbatim>\<open>code\<close>, the context holds an entry under \<^verbatim>\<open>pre.code\<close>, the parent is \<^verbatim>\<open>pre\<close>, and
  the context's entry is chosen.
\<close>

theorem override_dominance_counterexample:
  "get_prop scoped_heap 1 ''components'' = JRef 2 \<and>
   get_prop scoped_heap 1 ''mdxType'' = JStr ''code'' \<and>
   map_of (load scoped_heap 2) ''code'' = Some (JFun 1) \<and>
   map_of (load scoped_heap 0) ''pre.code'' = Some (JFun 2) \<and>
   renderer_of (u_MDXCreateElement plain_host 0 1 Null scoped_heap) = Some (JFun 2) \<and>
   renderer_of (u_MDXCreateElement plain_host 0 1 Null scoped_heap) \<noteq> Some (JFun 1)"
proof -
  have pn: "get_prop scoped_heap 1 ''parentName'' = JStr ''pre''"
    and mt: "get_prop scoped_heap 1 ''mdxType'' = JStr ''code''"
    by (simp_all add: scoped_heap_def heap_eval)
  have cs: "to_string plain_host (scoped_heap @ xs) (get_prop scoped_heap 1 ''parentName'') = Inr ''pre''"
    for xs by (simp only: pn to_string_JStr)
  have cf: "to_string plain_host (scoped_heap @ xs) (get_prop scoped_heap 1 ''mdxType'') = Inr ''code''"
    for xs by (simp only: mt to_string_JStr)
  have "renderer_of (u_MDXCreateElement plain_host 0 1 Null scoped_heap) =
          Some (pick (merged scoped_heap 0 (get_prop scoped_heap 1 ''components'')) ''pre'' ''code''
                  (get_prop scoped_heap 1 ''originalType''))"
    by (rule u_renderer[OF _ _ _ _ cs cf]) (simp_all add: scoped_heap_def heap_eval)
  then show ?thesis by (simp add: scoped_heap_def heap_eval)
qed

text \<open>
  C3, as amended. With no \<^verbatim>\<open>components\<close> prop (or a falsy one), when the context assigns
  the renderer \<open>R\<close> (a truthy value) to the tag \<open>t\<close>, \<^verbatim>\<open>parentName\<close> converts to the string
  \<open>s\<close> and the context has no renderer under the dotted key \<^verbatim>\<open>s.t\<close>, \<open>R\<close> is chosen.
\<close>

theorem context_entry_chosen_unless_scoped:
  assumes "e < length h" "ctx < length h"
    and "''__proto__'' \<notin> fst ` set (load h e)"
    and "\<not> truthy (get_prop h e ''components'')"
    and "get_prop h e ''mdxType'' = JStr t"
    and "\<And>xs. to_string env (h @ xs) (get_prop h e ''parentName'') = Inr s"
    and "map_of (load h ctx) t = Some R" "truthy R"
    and "\<not> has_renderer (map_of (load h ctx)) (s @ ''.'' @ t)"
  shows "renderer_of (u_MDXCreateElement env ctx e n h) = Some R"
proof -
  let ?c = "get_prop h e ''components''"
  have nf: "typeof ?c \<noteq> ''function''" "in_store h ?c"
    using assms(4) by (cases ?c; simp add: in_store_def)+
  have mg: "merged h ctx ?c = map_of (load h ctx)"
    using assms(4) by (rule merged_falsy)
  have cf: "to_string env (h @ xs) (get_prop h e ''mdxType'') = Inr t" for xs
    by (simp only: assms(5) to_string_JStr)
  have "renderer_of (u_MDXCreateElement env ctx e n h) =
          Some (pick (map_of (load h ctx)) s t (get_prop h e ''originalType''))"
    using u_renderer[OF assms(1,2) nf assms(6) cf, of n] by (simp add: mg)
  then show ?thesis using pick_plain[OF assms(9,7,8)] by simp
qed

theorem context_entry_chosen_unless_scoped_witness:
  "get_prop plain_heap 3 ''components'' = Undefined \<and>
   get_prop plain_heap 3 ''mdxType'' = JStr ''code'' \<and>
   get_prop plain_heap 3 ''parentName'' = JStr ''pre'' \<and>
   map_of (load plain_heap 0) ''code'' = Some (JFun 3) \<and>
   renderer_of (u_MDXCreateElement plain_host 0 3 Null plain_heap) = Some (JFun 3)"
proof -
  have 1: "3 < length plain_heap" "0 < length plain_heap"
    by (simp_all add: plain_heap_def)
  have np: "''__proto__'' \<notin> fst ` set (load plain_heap 3)"
    by (simp add: plain_heap_def load_def)
  have 2: "get_prop plain_heap 3 ''components'' = Undefined"
    by (simp add: plain_heap_def heap_eval Object_prototype_def)
  have 3: "\<not> truthy (get_prop plain_heap 3 ''components'')" by (simp only: 2) simp
  have 4: "get_prop plain_heap 3 ''mdxType'' = JStr ''code''"
    by (simp add: plain_heap_def heap_eval)
  have pn: "get_prop plain_heap 3 ''parentName'' = JStr ''pre''"
    by (simp add: plain_heap_def heap_eval)
  have 5: "to_string plain_host (plain_heap @ xs) (get_prop plain_heap 3 ''parentName'') = Inr ''pre''"
    for xs by (simp only: pn to_string_JStr)
  have 6: "map_of (load plain_heap 0) ''code'' = Some (JFun 3)"
    by (simp add: plain_heap_def heap_eval)
  have 7: "truthy (JFun 3)" by simp
  have 8: "\<not> has_renderer (map_of (load plain_heap 0)) (''pre'' @ ''.'' @ ''code'')"
    by (simp add: plain_heap_def heap_eval)
  show ?thesis
    using context_entry_chosen_unless_scoped[OF 1 np 3 4 5 6 7 8, of Null] 2 4 pn 6 by simp
qed

text \<open>
  The claim as written fails: no \<^verbatim>\<open>components\<close> prop, the context assigns \<^verbatim>\<open>JFun 3\<close> to
  \<^verbatim>\<open>code\<close> and \<^verbatim>\<open>JFun 2\<close> to \<^verbatim>\<open>pre.code\<close>, the parent is \<^verbatim>\<open>pre\<close>, and \<^verbatim>\<open>JFun 2\<close> is
  chosen.
\<close>

theorem context_hit_counterexample:
  "get_prop scoped_heap 3 ''components'' = Undefined \<and>
   get_prop scoped_heap 3 ''mdxType'' = JStr ''code'' \<and>
   map_of (load scoped_heap 0) ''code'' = Some (JFun 3) \<and>
   renderer_of (u_MDXCreateElement plain_host 0 3 Null scoped_heap) = Some (JFun 2) \<and>
   renderer_of (u_MDXCreateElement plain_host 0 3 Null scoped_heap) \<noteq> Some (JFun 3)"
proof -
  have pn: "get_prop scoped_heap 3 ''parentName'' = JStr ''pre''"
    and mt: "get_prop scoped_heap 3 ''mdxType'' = JStr ''code''"
    by (simp_all add: scoped_heap_def heap_eval)
  have cs: "to_string plain_host (scoped_heap @ xs) (get_prop scoped_heap 3 ''parentName'') = Inr ''pre''"
    for xs by (simp only: pn to_string_JStr)
  have cf: "to_string plain_host (scoped_heap @ xs) (get_prop scoped_heap 3 ''mdxType'') = Inr ''code''"
    for xs by (simp only: mt to_string_JStr)
  have "renderer_of (u_MDXCreateElement plain_host 0 3 Null scoped_heap) =
          Some (pick (merged scoped_heap 0 (get_prop scoped_heap 3 ''components'')) ''pre'' ''code''
                  (get_prop scoped_heap 3 ''originalType''))"
    by (rule u_renderer[OF _ _ _ _ cs cf])
       (simp_all add: scoped_heap_def heap_eval Object_prototype_def)
  then show ?thesis by (simp add: scoped_heap_def heap_eval Object_prototype_def)
qed

text \<open>
  C2, as amended. Let the props be those of the tag \<open>t\<close> (\<^verbatim>\<open>kt\<close> sets both \<^verbatim>\<open>mdxType\<close> and
  \<^verbatim>\<open>originalType\<close> to a string tag), with no \<^verbatim>\<open>components\<close> override and a \<^verbatim>\<open>parentName\<close>
  that converts to the string \<open>s\<close>. When the context has no renderer for \<open>t\<close> nor under
  the dotted key \<^verbatim>\<open>s.t\<close>, and \<open>t\<close> is neither a key of the built-in table \<^verbatim>\<open>d\<close>
  (\<^verbatim>\<open>inlineCode\<close>, \<^verbatim>\<open>wrapper\<close>) nor the name of a member that every object inherits from
  \<^verbatim>\<open>Object.prototype\<close>, the renderer is the tag itself.
\<close>

theorem pass_through_fallback:
  assumes "e < length h" "ctx < length h"
    and "''__proto__'' \<notin> fst ` set (load h e)"
    and "\<not> truthy (get_prop h e ''components'')"
    and "get_prop h e ''mdxType'' = JStr t" "get_prop h e ''originalType'' = JStr t"
    and "\<And>xs. to_string env (h @ xs) (get_prop h e ''parentName'') = Inr s"
    and "\<not> has_renderer (map_of (load h ctx)) t"
    and "\<not> has_renderer (map_of (load h ctx)) (s @ ''.'' @ t)"
    and "t \<notin> fst ` set d_DEFAULTS" "t \<notin> fst ` set Object_prototype"
  shows "renderer_of (u_MDXCreateElement env ctx e n h) = Some (JStr t)"
proof -
  let ?c = "get_prop h e ''components''"
  have nf: "typeof ?c \<noteq> ''function''" "in_store h ?c"
    using assms(4) by (cases ?c; simp add: in_store_def)+
  have mg: "merged h ctx ?c = map_of (load h ctx)"
    using assms(4) by (rule merged_falsy)
  have cf: "to_string env (h @ xs) (get_prop h e ''mdxType'') = Inr t" for xs
    by (simp only: assms(5) to_string_JStr)
  have "renderer_of (u_MDXCreateElement env ctx e n h) =
          Some (pick (map_of (load h ctx)) s t (JStr t))"
    using u_renderer[OF assms(1,2) nf assms(7) cf, of n] by (simp add: mg assms(6))
  then show ?thesis using pick_fallback[OF assms(9,8,11,10)] by simp
qed

theorem pass_through_fallback_witness:
  "get_prop inline_heap 2 ''components'' = Undefined \<and>
   get_prop inline_heap 2 ''mdxType'' = JStr ''p'' \<and>
   get_prop inline_heap 2 ''parentName'' = Undefined \<and>
   load inline_heap 0 = [] \<and>
   renderer_of (u_MDXCreateElement plain_host 0 2 Null inline_heap) = Some (JStr ''p'')"
proof -
  have 1: "2 < length inline_heap" "0 < length inline_heap"
    by (simp_all add: inline_heap_def)
  have np: "''__proto__'' \<notin> fst ` set (load inline_heap 2)"
    by (simp add: inline_heap_def load_def)
  have 2: "get_prop inline_heap 2 ''components'' = Undefined"
    by (simp add: inline_heap_def heap_eval Object_prototype_def)
  have 3: "\<not> truthy (get_prop inline_heap 2 ''components'')" by (simp only: 2) simp
  have 4: "get_prop inline_heap 2 ''mdxType'' = JStr ''p''"
    "get_prop inline_heap 2 ''originalType'' = JStr ''p''"
    by (simp_all add: inline_heap_def heap_eval)
  have pn: "get_prop inline_heap 2 ''parentName'' = Undefined"
    by (simp add: inline_heap_def heap_eval Object_prototype_def)
  have 5: "to_string plain_host (inline_heap @ xs) (get_prop inline_heap 2 ''parentName'')
             = Inr ''undefined''"
    for xs by (simp only: pn to_string_Undefined)
  have 6: "load inline_heap 0 = []" by (simp add: inline_heap_def load_def)
  have 7: "\<not> has_renderer (map_of (load inline_heap 0)) ''p''"
    "\<not> has_renderer (map_of (load inline_heap 0)) (''undefined'' @ ''.'' @ ''p'')"
    by (simp_all add: 6 has_renderer_def)
  have 8: "''p'' \<notin> fst ` set d_DEFAULTS" "''p'' \<notin> fst ` set Object_prototype"
    by (simp_all add: d_DEFAULTS_def Object_prototype_def)
  show ?thesis
    using pass_through_fallback[OF 1 np 3 4 5 7 8, of Null] 2 4(1) pn 6 by simp
qed

text \<open>
  The claim as written fails for the tag \<^verbatim>\<open>inlineCode\<close>, which the page of this very
  chunk renders with \<^verbatim>\<open>kt("inlineCode",{parentName:"a"},"solido")\<close>: with an empty context
  and no override the renderer is \<^verbatim>\<open>code\<close>, the entry of the table \<^verbatim>\<open>d\<close>, not the tag.
\<close>

theorem pass_through_counterexample:
  "get_prop inline_heap 1 ''components'' = Undefined \<and>
   get_prop inline_heap 1 ''mdxType'' = JStr ''inlineCode'' \<and>
   load inline_heap 0 = [] \<and>
   renderer_of (u_MDXCreateElement plain_host 0 1 Null inline_heap) = Some (JStr ''code'') \<and>
   renderer_of (u_MDXCreateElement plain_host 0 1 Null inline_heap) \<noteq> Some (JStr ''inlineCode'')"
proof -
  have pn: "get_prop inline_heap 1 ''parentName'' = JStr ''a''"
    and mt: "get_prop inline_heap 1 ''mdxType'' = JStr ''inlineCode''"
    by (simp_all add: inline_heap_def heap_eval)
  have cs: "to_string plain_host (inline_heap @ xs) (get_prop inline_heap 1 ''parentName'') = Inr ''a''"
    for xs by (simp only: pn to_string_JStr)
  have cf: "to_string plain_host (inline_heap @ xs) (get_prop inline_heap 1 ''mdxType'')
              = Inr ''inlineCode''"
    for xs by (simp only: mt to_string_JStr)
  have "renderer_of (u_MDXCreateElement plain_host 0 1 Null inline_heap) =
          Some (pick (merged inline_heap 0 (get_prop inline_heap 1 ''components'')) ''a'' ''inlineCode''
                  (get_prop inline_heap 1 ''originalType''))"
    by (rule u_renderer[OF _ _ _ _ cs cf])
       (simp_all add: inline_heap_def heap_eval Object_prototype_def)
  then show ?thesis
    by (simp add: inline_heap_def heap_eval d_DEFAULTS_def Object_prototype_def)
qed





section \<open>Extending the context and merging\<close>

text \<open>
  C5. \<^verbatim>\<open>p\<close> with a mapping for \<^verbatim>\<open>components\<close> returns a newly allocated object: the store
  afterwards is the store before with that one object appended, so the context mapping,
  the override mapping and every other object are as they were.
\<close>

theorem p_extend_leaves_store:
  "\<exists>ob. p_useMDXComponents env ctx (JRef ov) h = Inr (length h, h @ [ob]) \<and>
        (\<forall>a<length h. load (h @ [ob]) a = load h a)"
proof -
  obtain ob where "p_useMDXComponents env ctx (JRef ov) h = Inr (length h, h @ [ob])"
    using p_useMDXComponents_new[of "JRef ov" env ctx h] by auto
  then show ?thesis by (auto simp: load_append_old)
qed

theorem p_extend_leaves_store_witness:
  "\<exists>ob. p_useMDXComponents plain_host 0 (JRef 2) plain_heap
           = Inr (length plain_heap, plain_heap @ [ob]) \<and>
        load (plain_heap @ [ob]) 0 = [(''code'', JFun 3), (''em'', JFun 4)] \<and>
        load (plain_heap @ [ob]) 2 = [(''code'', JFun 1)]"
proof -
  have 1: "0 < length plain_heap" "2 < length plain_heap"
    by (simp_all add: plain_heap_def)
  have 2: "load plain_heap 0 = [(''code'', JFun 3), (''em'', JFun 4)]"
    "load plain_heap 2 = [(''code'', JFun 1)]"
    by (simp_all add: plain_heap_def load_def)
  obtain ob where ob: "p_useMDXComponents plain_host 0 (JRef 2) plain_heap
                         = Inr (length plain_heap, plain_heap @ [ob])"
    "\<forall>a<length plain_heap. load (plain_heap @ [ob]) a = load plain_heap a"
    using p_extend_leaves_store[of plain_host 0 2 plain_heap] by blast
  have "load (plain_heap @ [ob]) 0 = load plain_heap 0" "load (plain_heap @ [ob]) 2 = load plain_heap 2"
    using ob(2) 1 by blast+
  then show ?thesis using ob(1) 2 by auto
qed

text \<open>
  C6. The merge \<^verbatim>\<open>i(e, src)\<close> writes the entries of the source onto the target: afterwards
  the target holds every key of the source with the source's value, and its other keys
  with the values they had; the source is unchanged. In particular
  \<^verbatim>\<open>i(i({}, {a:1,b:2}), {b:3,c:4})\<close> is \<^verbatim>\<open>{a:1,b:3,c:4}\<close>.
\<close>

theorem i_objectSpread_right_biased:
  "(e < length h \<longrightarrow> src < length h \<longrightarrow> src \<noteq> e \<longrightarrow>
      (\<exists>h'. i_objectSpread env e [JRef src] h = (e, h') \<and>
            map_of (load h' e) = map_of (load h e) ++ map_of (load h src) \<and>
            load h' src = load h src)) \<and>
   (case alloc [] [[(''a'', JNum 1), (''b'', JNum 2)], [(''b'', JNum 3), (''c'', JNum 4)]] of
      (t0, h0) \<Rightarrow> (case i_objectSpread env t0 [JRef 0] h0 of
      (t1, h1) \<Rightarrow> (case i_objectSpread env t1 [JRef 1] h1 of
      (t2, h2) \<Rightarrow> load h2 t2 = [(''a'', JNum 1), (''b'', JNum 3), (''c'', JNum 4)])))"
proof (intro conjI impI)
  assume a: "e < length h" "src < length h" "src \<noteq> e"
  have "i_objectSpread env e [JRef src] h =
          (e, store e (spread (load h e) (own_entries h (JRef src))) h)"
    using a by (intro i_objectSpread_single) (simp_all add: nullish_def)
  then show "\<exists>h'. i_objectSpread env e [JRef src] h = (e, h') \<and>
            map_of (load h' e) = map_of (load h e) ++ map_of (load h src) \<and>
            load h' src = load h src"
    using a by (simp add: load_store_same load_store_other map_of_spread own_entries_def)
next
  show "case alloc [] [[(''a'', JNum 1), (''b'', JNum 2)], [(''b'', JNum 3), (''c'', JNum 4)]] of
      (t0, h0) \<Rightarrow> (case i_objectSpread env t0 [JRef 0] h0 of
      (t1, h1) \<Rightarrow> (case i_objectSpread env t1 [JRef 1] h1 of
      (t2, h2) \<Rightarrow> load h2 t2 = [(''a'', JNum 1), (''b'', JNum 3), (''c'', JNum 4)]))"
    by code_simp
qed

theorem i_objectSpread_right_biased_witness:
  "\<exists>h'. i_objectSpread plain_host 0 [JRef 2] plain_heap = (0, h') \<and>
        map_of (load h' 0) ''code'' = Some (JFun 1) \<and>
        map_of (load h' 0) ''em'' = Some (JFun 4) \<and>
        load h' 2 = [(''code'', JFun 1)]"
proof -
  have 1: "0 < length plain_heap" "2 < length plain_heap" "(2::nat) \<noteq> 0"
    by (simp_all add: plain_heap_def)
  have 2: "load plain_heap 0 = [(''code'', JFun 3), (''em'', JFun 4)]"
    "load plain_heap 2 = [(''code'', JFun 1)]"
    by (simp_all add: plain_heap_def load_def)
  from i_objectSpread_right_biased[of 0 plain_heap 2 plain_host] 1
  obtain h' where h': "i_objectSpread plain_host 0 [JRef 2] plain_heap = (0, h')"
    "map_of (load h' 0) = map_of (load plain_heap 0) ++ map_of (load plain_heap 2)"
    "load h' 2 = load plain_heap 2" by blast
  show ?thesis using h' by (simp add: 2)
qed

section \<open>The props handed to the renderer\<close>

lemma map_of_rest:
  "map_of (spread [(''ref'', n)] (without rest_names es)) k =
     (if k \<in> set rest_names \<or> k = ''__proto__'' then (if k = ''ref'' then Some n else None)
      else (case map_of es k of Some v \<Rightarrow> Some v | None \<Rightarrow> (if k = ''ref'' then Some n else None)))"
  by (simp add: map_of_spread map_add_def map_of_without split: option.splits)

lemma forwarded_facts:
  assumes "''__proto__'' \<notin> fst ` set es"
    and "ob = (if truthy t then AList.update ''components'' t (spread [(''ref'', n)] (without rest_names es))
               else spread [(''ref'', n)] (without rest_names es))"
  shows "map_of ob ''mdxType'' = None \<and> map_of ob ''originalType'' = None \<and>
         map_of ob ''parentName'' = None \<and>
         map_of ob ''components'' = (if truthy t then Some t else None) \<and>
         (\<forall>k v. k \<notin> set rest_names \<longrightarrow> map_of es k = Some v \<longrightarrow> map_of ob k = Some v)"
proof -
  have np: "map_of es k = Some v \<Longrightarrow> k \<noteq> ''__proto__''" for k v
    using assms(1) by (metis map_of_eq_None_iff option.distinct(1))
  let ?R = "spread [(''ref'', n)] (without rest_names es)"
  have 1: "map_of ?R ''mdxType'' = None" "map_of ?R ''originalType'' = None"
    "map_of ?R ''parentName'' = None" "map_of ?R ''components'' = None"
    by (subst map_of_rest, simp add: rest_names_def)+
  have 2: "k \<notin> set rest_names \<Longrightarrow> map_of es k = Some v \<Longrightarrow> map_of ?R k = Some v" for k v
    using np[of k v] by (subst map_of_rest) simp
  have 3: "k \<notin> set rest_names \<Longrightarrow> k \<noteq> ''components''" for k
    by (auto simp: rest_names_def)
  show ?thesis
    unfolding assms(2) using 1 2 3 by (simp add: update_conv')
qed

text \<open>
  C10. Whenever \<^verbatim>\<open>u\<close> returns, the props object it hands to the renderer has no
  \<^verbatim>\<open>mdxType\<close>, \<^verbatim>\<open>originalType\<close> or \<^verbatim>\<open>parentName\<close>; it has \<^verbatim>\<open>components\<close> exactly when the
  incoming \<^verbatim>\<open>components\<close> is truthy, with that value; and every other incoming entry is
  there with its value. The incoming props are those of a host-built props object, which
  has no own property named \<^verbatim>\<open>__proto__\<close>. A \<^verbatim>\<open>components\<close> function, when there is one,
  is called after the rest of the props was copied to a new object that it cannot reach:
  it is taken to leave that object as it was.
\<close>

theorem reserved_props_stripped:
  assumes ret: "u_MDXCreateElement env ctx e n h = Inr r"
    and wf: "e < length h"
    and np: "''__proto__'' \<notin> fst ` set (load h e)"
    and fr: "typeof (get_prop h e ''components'') = ''function'' \<longrightarrow>
             leaves_alone env (get_prop h e ''components'') ctx
               (h @ [without rest_names (load h e)]) (length h)"
  shows "\<exists>ob. props_of (Inr r) = Some ob \<and>
           map_of ob ''mdxType'' = None \<and> map_of ob ''originalType'' = None \<and>
           map_of ob ''parentName'' = None \<and>
           map_of ob ''components'' =
             (if truthy (get_prop h e ''components'') then Some (get_prop h e ''components'') else None) \<and>
           (\<forall>k v. k \<notin> set rest_names \<longrightarrow> map_of (load h e) k = Some v \<longrightarrow> map_of ob k = Some v)"
proof -
  let ?t = "get_prop h e ''components''"
  let ?c = "without rest_names (load h e)"
  let ?h1 = "h @ [?c]"
  let ?ob = "if truthy ?t then AList.update ''components'' ?t (spread [(''ref'', n)] ?c)
             else spread [(''ref'', n)] ?c"
  have l: "l_objectWithoutProperties (JRef e) [''components'', ''mdxType'', ''originalType'', ''parentName''] h
             = (length h, ?h1)"
    using l_objectWithoutProperties_eq[OF wf, of rest_names] by (simp add: rest_names_def)
  have "\<exists>u' h2. p_useMDXComponents env ctx ?t ?h1 = Inr (u', h2) \<and> length h < length h2 \<and>
                 load h2 (length h) = ?c"
  proof (cases "typeof ?t = ''function''")
    case True
    then have tr: "truthy ?t" by (cases ?t) auto
    have p: "p_useMDXComponents env ctx ?t ?h1 = apply_components env ?t ctx ?h1"
      using True tr by (simp add: p_useMDXComponents_def)
    obtain u' h2 where a: "apply_components env ?t ctx ?h1 = Inr (u', h2)"
      using ret by (cases "apply_components env ?t ctx ?h1")
        (auto simp: u_MDXCreateElement_def l p Let_def)
    have "length h < length h2" "load h2 (length h) = ?c"
      using fr True a by (auto simp: leaves_alone_def load_append_new)
    then show ?thesis using p a by simp
  next
    case nf: False
    show ?thesis
    proof (cases "truthy ?t")
      case True
      obtain ob where "p_useMDXComponents env ctx ?t ?h1 = Inr (length ?h1, ?h1 @ [ob])"
        using p_useMDXComponents_new[OF True nf] by blast
      moreover have "load (?h1 @ [ob]) (length h) = ?c"
        using load_append_old[of "length h" ?h1 "[ob]"] by (simp add: load_append_new)
      ultimately show ?thesis by simp
    next
      case False
      then show ?thesis by (simp add: p_useMDXComponents_falsy load_append_new)
    qed
  qed
  then obtain u' h2 where p: "p_useMDXComponents env ctx ?t ?h1 = Inr (u', h2)"
    and la: "length h < length h2" "load h2 (length h) = ?c" by blast
  obtain ss where cs: "to_string env h2 (get_prop h e ''parentName'') = Inr ss"
    using ret by (cases "to_string env h2 (get_prop h e ''parentName'')")
      (auto simp: u_MDXCreateElement_def l p Let_def)
  obtain fs where cf: "to_string env h2 (get_prop h e ''mdxType'') = Inr fs"
    using ret by (cases "to_string env h2 (get_prop h e ''mdxType'')")
      (auto simp: u_MDXCreateElement_def l p cs Let_def)
  have "props_of (u_MDXCreateElement env ctx e n h) = Some ?ob"
    by (simp add: u_MDXCreateElement_after_p[OF wf p la cs cf] props_of_def load_def nth_append)
  then have "props_of (Inr r) = Some ?ob" by (simp only: ret)
  then show ?thesis using forwarded_facts[OF np, of ?ob ?t n] by blast
qed

theorem reserved_props_stripped_witness:
  "get_prop function_heap 1 ''components'' = JFun 9 \<and>
   leaves_alone identity_host (JFun 9) 0
     (function_heap @ [without rest_names (load function_heap 1)]) (length function_heap) \<and>
   (\<exists>ob. props_of (u_MDXCreateElement identity_host 0 1 Null function_heap) = Some ob \<and>
      map_of ob ''mdxType'' = None \<and> map_of ob ''originalType'' = None \<and>
      map_of ob ''parentName'' = None \<and> map_of ob ''components'' = Some (JFun 9) \<and>
      map_of ob ''className'' = Some (JStr ''language-json''))"
proof -
  have 1: "1 < length function_heap" "0 < length function_heap"
    by (simp_all add: function_heap_def)
  have 2: "get_prop function_heap 1 ''components'' = JFun 9"
    by (simp add: function_heap_def heap_eval)
  have 4: "''__proto__'' \<notin> fst ` set (load function_heap 1)"
    by (simp add: function_heap_def load_def)
  have 5: "leaves_alone identity_host (JFun 9) 0
             (function_heap @ [without rest_names (load function_heap 1)]) (length function_heap)"
    by (simp add: function_heap_def leaves_alone_def identity_host_def load_def)
  have 6: "typeof (get_prop function_heap 1 ''components'') = ''function'' \<longrightarrow>
           leaves_alone identity_host (get_prop function_heap 1 ''components'') 0
             (function_heap @ [without rest_names (load function_heap 1)]) (length function_heap)"
    using 5 by (simp only: 2) simp
  have p: "p_useMDXComponents identity_host 0 (JFun 9) h' = Inr (0, h')" for h'
    by (simp add: p_useMDXComponents_def identity_host_def)
  have 7: "p_useMDXComponents identity_host 0 (get_prop function_heap 1 ''components'')
             (function_heap @ [without rest_names (load function_heap 1)])
           = Inr (0, function_heap @ [without rest_names (load function_heap 1)])"
    by (simp only: 2 p)
  have pn: "get_prop function_heap 1 ''parentName'' = Undefined"
    and mt: "get_prop function_heap 1 ''mdxType'' = JStr ''code''"
    by (simp_all add: function_heap_def heap_eval Object_prototype_def)
  have cs: "to_string identity_host h' (get_prop function_heap 1 ''parentName'') = Inr ''undefined''"
    for h' by (simp only: pn to_string_Undefined)
  have cf: "to_string identity_host h' (get_prop function_heap 1 ''mdxType'') = Inr ''code''"
    for h' by (simp only: mt to_string_JStr)
  obtain r where r: "u_MDXCreateElement identity_host 0 1 Null function_heap = Inr r"
    using u_MDXCreateElement_after_p[OF 1(1) 7 _ _ cs cf, of Null] by (simp add: load_append_new)
  have 8: "''className'' \<notin> set rest_names" by (simp add: rest_names_def)
  have 9: "map_of (load function_heap 1) ''className'' = Some (JStr ''language-json'')"
    by (simp add: function_heap_def load_def)
  obtain ob where ob: "props_of (Inr r) = Some ob" "map_of ob ''mdxType'' = None"
    "map_of ob ''originalType'' = None" "map_of ob ''parentName'' = None"
    "map_of ob ''components'' = (if truthy (get_prop function_heap 1 ''components'')
                                  then Some (get_prop function_heap 1 ''components'') else None)"
    "\<forall>k v. k \<notin> set rest_names \<longrightarrow> map_of (load function_heap 1) k = Some v \<longrightarrow>
           map_of ob k = Some v"
    using reserved_props_stripped[OF r 1(1) 4 6] by blast
  have 10: "map_of ob ''components'' = Some (JFun 9)"
    using ob(5) by (simp only: 2) simp
  have 11: "map_of ob ''className'' = Some (JStr ''language-json'')"
    using ob(6) 8 9 by blast
  have "\<exists>ob. props_of (u_MDXCreateElement identity_host 0 1 Null function_heap) = Some ob \<and>
      map_of ob ''mdxType'' = None \<and> map_of ob ''originalType'' = None \<and>
      map_of ob ''parentName'' = None \<and> map_of ob ''components'' = Some (JFun 9) \<and>
      map_of ob ''className'' = Some (JStr ''language-json'')"
    unfolding r using ob(1-4) 10 11 by blast
  then show ?thesis using 2 5 by blast
qed


section \<open>From \<^verbatim>\<open>kt\<close> to the renderer\<close>

lemma f_forin_l_loop: "f_forin n l ks h = l_loop n [] l ks h"
  by (induction ks arbitrary: h) simp_all

lemma host_copy_l_loop: "host_copy c r p ks h = l_loop c r p ks h"
  by (induction ks arbitrary: h) simp_all

lemma in_store_not_new: "in_store h v \<Longrightarrow> v \<noteq> JRef (length h)"
  by (auto simp: in_store_def)

lemma f_kt_string:
  assumes "in_store h n"
  shows "f_kt (JStr tag # n # children) h =
           (JElem MDXCreateElement (JRef (length h)) children, h @ [kt_config h (JStr tag) n])"
proof -
  let ?t = "JStr tag # n # children"
  have arr: "f_copy_args ?t [2..<length ?t]
          (array_set (array_set (replicate (length ?t) Undefined) 0 x) 1 y) = x # y # children"
    for x y using f_kt_args_array[of ?t x y] by simp
  have forin: "f_forin n (length h) (object_keys (h @ [[]]) n) (h @ [[]])
                 = h @ [without [] (own_entries h n)]"
    using l_loop_without[OF in_store_not_new[OF assms], of "[]"] by (simp add: f_forin_l_loop)
  have a1: "assign (length h) ''originalType'' v (h @ [ob]) = h @ [AList.update ''originalType'' v ob]"
    for v ob by (simp add: assign_store load_append_new store_append_new)
  have a2: "assign (length h) ''mdxType'' v (h @ [ob]) = h @ [AList.update ''mdxType'' v ob]"
    for v ob by (simp add: assign_store load_append_new store_append_new)
  show ?thesis
    using arr by (simp add: f_kt_def Let_def alloc_def arg_def forin a1 a2 createElement_def kt_config_def)
qed

lemma host_props_eq:
  assumes "l < length h"
  shows "host_props (JRef l) children h =
           (length h, h @ [with_children children (without reserved_props (load h l))])"
proof -
  have ne: "JRef l \<noteq> JRef (length h)" using assms by simp
  have cp: "host_copy (JRef l) [''key'', ''ref'', ''__self'', ''__source''] (length h)
              (object_keys (h @ [[]]) (JRef l)) (h @ [[]]) = h @ [without reserved_props (load h l)]"
    using l_loop_without[OF ne, of reserved_props]
    by (simp add: host_copy_l_loop reserved_props_def own_entries_def)
  have a: "assign (length h) ''children'' v (h @ [ob]) = h @ [AList.update ''children'' v ob]"
    for v ob by (simp add: assign_store load_append_new store_append_new)
  show ?thesis
    by (simp add: host_props_def alloc_def nullish_def cp a with_children_def split: list.splits)
qed

lemma kt_render_eq:
  assumes "in_store h n"
  shows "kt_render env ctx (JStr tag # n # children) h =
           u_MDXCreateElement env ctx (Suc (length h))
             (host_ref (h @ [kt_config h (JStr tag) n]) (JRef (length h)))
             (h @ [kt_config h (JStr tag) n,
                   with_children children (without reserved_props (kt_config h (JStr tag) n))])"
proof -
  let ?L = "kt_config h (JStr tag) n"
  have hp: "host_props (JRef (length h)) children (h @ [?L]) =
              (Suc (length h), h @ [?L] @ [with_children children (without reserved_props ?L)])"
    using host_props_eq[of "length h" "h @ [?L]" children] by (simp add: load_append_new)
  show ?thesis
    by (simp add: kt_render_def f_kt_string[OF assms] render_mdx_def hp)
qed

lemma map_of_with_children:
  "k \<noteq> ''children'' \<Longrightarrow> map_of (with_children cs ob) k = map_of ob k"
  by (simp add: with_children_def update_conv' split: list.splits)

lemma map_of_kt_props:
  assumes "k \<notin> set reserved_props" "k \<noteq> ''__proto__''" "k \<noteq> ''children''"
  shows "map_of (with_children cs (without reserved_props (kt_config h tag n))) k =
           (if k = ''mdxType'' \<or> k = ''originalType'' then Some tag
            else map_of (own_entries h n) k)"
  using assms
  by (auto simp: map_of_with_children map_of_without kt_config_def update_conv')

lemma read_map_js_get:
  "k \<notin> fst ` set Object_prototype \<Longrightarrow> read_map (map_of (own_entries h n)) k = js_get h n k"
proof -
  assume "k \<notin> fst ` set Object_prototype"
  then have p: "map_of Object_prototype k = None" by (simp add: map_of_eq_None_iff)
  show ?thesis
    by (cases n)
       (simp_all add: read_map_def js_get_def own_entries_def get_prop_def lookup_obj_def p
          split: option.splits)
qed

lemma kt_props_read:
  assumes "k \<notin> set reserved_props" "k \<noteq> ''children''" "k \<notin> fst ` set Object_prototype"
  shows "get_prop (h @ [L, with_children cs (without reserved_props (kt_config h tag n))])
           (Suc (length h)) k =
         (if k = ''mdxType'' \<or> k = ''originalType'' then tag else js_get h n k)"
proof -
  have np: "k \<noteq> ''__proto__''" using assms(3) proto_key_in by auto
  have ld: "load (h @ [L, P]) (Suc (length h)) = P" for P
    by (simp add: load_def nth_append)
  show ?thesis
    using assms read_map_js_get[OF assms(3), of h n]
    by (simp add: get_prop_def ld lookup_obj_read_map read_map_def
        map_of_kt_props[OF assms(1) np assms(2)])
qed

lemma not_proto_keys:
  "''components'' \<notin> fst ` set Object_prototype" "''parentName'' \<notin> fst ` set Object_prototype"
  "''mdxType'' \<notin> fst ` set Object_prototype" "''originalType'' \<notin> fst ` set Object_prototype"
  by (simp_all add: Object_prototype_def)

lemma kt_props_reads:
  fixes h L cs tag n
  defines "H \<equiv> h @ [L, with_children cs (without reserved_props (kt_config h tag n))]"
  shows "get_prop H (Suc (length h)) ''components'' = js_get h n ''components''"
    and "get_prop H (Suc (length h)) ''parentName'' = js_get h n ''parentName''"
    and "get_prop H (Suc (length h)) ''mdxType'' = tag"
    and "get_prop H (Suc (length h)) ''originalType'' = tag"
  unfolding H_def
  by (subst kt_props_read; simp add: reserved_props_def not_proto_keys)+

lemma merged_append:
  "ctx < length h \<Longrightarrow> in_store h t \<Longrightarrow> merged (h @ xs) ctx t = merged h ctx t"
  by (simp add: merged_def load_append_old own_entries_append)

lemma in_store_append: "in_store h v \<Longrightarrow> in_store (h @ xs) v"
  by (cases v) (auto simp: in_store_def)

lemma kt_render_renderer:
  assumes "ctx < length h" "in_store h n"
    "typeof (js_get h n ''components'') \<noteq> ''function''" "in_store h (js_get h n ''components'')"
    and cs: "\<And>xs. to_string env (h @ xs) (js_get h n ''parentName'') = Inr ss"
  shows "renderer_of (kt_render env ctx (JStr tag # n # children) h) =
           Some (pick (merged h ctx (js_get h n ''components'')) ss tag (JStr tag))"
proof -
  let ?L = "kt_config h (JStr tag) n"
  let ?P = "with_children children (without reserved_props ?L)"
  let ?H = "h @ [?L, ?P]"
  have 1: "Suc (length h) < length ?H" "ctx < length ?H" using assms(1) by simp_all
  have 2: "typeof (get_prop ?H (Suc (length h)) ''components'') \<noteq> ''function''"
    "in_store ?H (get_prop ?H (Suc (length h)) ''components'')"
    using assms(3,4) by (simp_all add: kt_props_reads in_store_append)
  have cs': "to_string env (?H @ xs) (get_prop ?H (Suc (length h)) ''parentName'') = Inr ss" for xs
    using cs[of "[?L, ?P] @ xs"] by (simp add: kt_props_reads)
  have cf': "to_string env (?H @ xs) (get_prop ?H (Suc (length h)) ''mdxType'') = Inr tag" for xs
    by (simp add: kt_props_reads to_string_JStr)
  show ?thesis
    using u_renderer[OF 1 2 cs' cf'] assms(1,4)
    by (simp add: kt_render_eq[OF assms(2)] kt_props_reads merged_append)
qed

lemma kt_render_props:
  assumes "ctx < length h" "in_store h n"
    "typeof (js_get h n ''components'') \<noteq> ''function''" "in_store h (js_get h n ''components'')"
    and cs: "\<And>xs. to_string env (h @ xs) (js_get h n ''parentName'') = Inr ss"
  shows "\<exists>r. props_of (kt_render env ctx (JStr tag # n # children) h) =
           Some (if truthy (js_get h n ''components'')
                 then AList.update ''components'' (js_get h n ''components'')
                        (spread [(''ref'', r)] (without rest_names
                           (with_children children (without reserved_props (kt_config h (JStr tag) n)))))
                 else spread [(''ref'', r)] (without rest_names
                           (with_children children (without reserved_props (kt_config h (JStr tag) n)))))"
proof -
  let ?L = "kt_config h (JStr tag) n"
  let ?P = "with_children children (without reserved_props ?L)"
  let ?H = "h @ [?L, ?P]"
  have 1: "Suc (length h) < length ?H" "ctx < length ?H" using assms(1) by simp_all
  have 2: "typeof (get_prop ?H (Suc (length h)) ''components'') \<noteq> ''function''"
    "in_store ?H (get_prop ?H (Suc (length h)) ''components'')"
    using assms(3,4) by (simp_all add: kt_props_reads in_store_append)
  have cs': "to_string env (?H @ xs) (get_prop ?H (Suc (length h)) ''parentName'') = Inr ss" for xs
    using cs[of "[?L, ?P] @ xs"] by (simp add: kt_props_reads)
  have cf': "to_string env (?H @ xs) (get_prop ?H (Suc (length h)) ''mdxType'') = Inr tag" for xs
    by (simp add: kt_props_reads to_string_JStr)
  have ld: "load ?H (Suc (length h)) = ?P" by (simp add: load_def nth_append)
  show ?thesis
    using u_props[OF 1 2 cs' cf']
    by (simp add: kt_render_eq[OF assms(2)] kt_props_reads ld) blast
qed

text \<open>
  C8. With a context that is \<^verbatim>\<open>{"code": RendererX}\<close>, the tag \<^verbatim>\<open>code\<close>, the props
  \<^verbatim>\<open>{"inline": true}\<close> and no override, rendering the element of \<^verbatim>\<open>kt\<close> gives an element
  whose renderer is \<^verbatim>\<open>RendererX\<close> and whose props hold \<^verbatim>\<open>inline: true\<close>.
\<close>

theorem end_to_end_code:
  assumes "ctx < length h" "a < length h"
    "load h ctx = [(''code'', RendererX)]" "truthy RendererX"
    "load h a = [(''inline'', JBool True)]"
  shows "renderer_of (kt_render env ctx [JStr ''code'', JRef a] h) = Some RendererX \<and>
         (\<exists>ob. props_of (kt_render env ctx [JStr ''code'', JRef a] h) = Some ob \<and>
               map_of ob ''inline'' = Some (JBool True))"
proof -
  have c: "js_get h (JRef a) ''components'' = Undefined"
    by (simp add: js_get_def get_prop_def lookup_obj_def assms(5) Object_prototype_def)
  have pn: "js_get h (JRef a) ''parentName'' = Undefined"
    by (simp add: js_get_def get_prop_def lookup_obj_def assms(5) Object_prototype_def)
  have wf: "in_store h (JRef a)" "typeof (js_get h (JRef a) ''components'') \<noteq> ''function''"
    "in_store h (js_get h (JRef a) ''components'')"
    using assms(2) by (simp_all add: c in_store_def)
  have cs: "to_string env (h @ xs) (js_get h (JRef a) ''parentName'') = Inr ''undefined''" for xs
    by (simp only: pn to_string_Undefined)
  have pk: "pick (merged h ctx Undefined) ''undefined'' ''code'' (JStr ''code'') = RendererX"
    using assms(4)
    by (simp add: pick_def merged_def own_entries_def assms(3) read_map_def
        or_else_def Object_prototype_def)
  have r: "renderer_of (kt_render env ctx [JStr ''code'', JRef a] h) = Some RendererX"
    using kt_render_renderer[OF assms(1) wf cs, of "''code''" "[]"] by (simp add: c pk)
  obtain rf where p: "props_of (kt_render env ctx [JStr ''code'', JRef a] h) =
      Some (spread [(''ref'', rf)] (without rest_names
              (with_children [] (without reserved_props (kt_config h (JStr ''code'') (JRef a))))))"
    using kt_render_props[OF assms(1) wf cs, of "''code''" "[]"] by (auto simp: c)
  have ki: "map_of (with_children [] (without reserved_props (kt_config h (JStr ''code'') (JRef a))))
              ''inline'' = Some (JBool True)"
    by (subst map_of_kt_props) (simp_all add: reserved_props_def own_entries_def assms(5))
  have "map_of (spread [(''ref'', rf)] (without rest_names
              (with_children [] (without reserved_props (kt_config h (JStr ''code'') (JRef a))))))
          ''inline'' = Some (JBool True)"
    by (subst map_of_rest) (simp add: rest_names_def ki)
  then show ?thesis using r p by simp
qed

theorem end_to_end_code_witness:
  "load code_heap 0 = [(''code'', JFun 7)] \<and> load code_heap 1 = [(''inline'', JBool True)] \<and>
   renderer_of (kt_render plain_host 0 [JStr ''code'', JRef 1] code_heap) = Some (JFun 7) \<and>
   (\<exists>ob. props_of (kt_render plain_host 0 [JStr ''code'', JRef 1] code_heap) = Some ob \<and>
         map_of ob ''inline'' = Some (JBool True))"
proof -
  have 1: "0 < length code_heap" "1 < length code_heap" by (simp_all add: code_heap_def)
  have 2: "load code_heap 0 = [(''code'', JFun 7)]" "load code_heap 1 = [(''inline'', JBool True)]"
    by (simp_all add: code_heap_def load_def)
  have 3: "truthy (JFun 7)" by simp
  show ?thesis
    using end_to_end_code[OF 1 2(1) 3 2(2), of plain_host] 2 by blast
qed

end
